theory Spec2Isabelle
  imports Main
begin

section \<open>JavaScript values, errors and promises\<close>

text \<open>
  The offline layer of NestTask is TypeScript running on browser APIs (fetch, IndexedDB,
  the Cache API, React state). The embedding keeps the program's own control flow and
  makes every platform answer an explicit input.

  A thrown JavaScript error is kept as the two things the code inspects: whether it is
  an instance of \<open>TypeError\<close>, and its message.
\<close>

datatype js_error = JsError (is_TypeError: bool) (message: string)

text \<open>
  The outcome of awaiting a promise. \<open>Pending\<close> is a promise that never settles:
  neither \<open>resolve\<close> nor \<open>reject\<close> is ever called.
\<close>

datatype 'a promise = Fulfilled 'a | Rejected js_error | Pending

text \<open>\<open>String.prototype.startsWith\<close> and \<open>String.prototype.includes\<close> (case sensitive).\<close>

definition startsWith :: "string \<Rightarrow> string \<Rightarrow> bool" where
  "startsWith s p = (take (length p) s = p)"

fun str_includes :: "string \<Rightarrow> string \<Rightarrow> bool" where
  "str_includes [] p = (p = [])"
| "str_includes (c # cs) p = (startsWith (c # cs) p \<or> str_includes cs p)"

text \<open>Decimal rendering of a number inside a template literal.\<close>

fun show_nat :: "nat \<Rightarrow> string" where
  "show_nat n =
     (if n < 10 then [char_of (48 + n)]
      else show_nat (n div 10) @ [char_of (48 + n mod 10)])"

declare show_nat.simps [simp del]

section \<open>Pending operations queue (src/hooks/useData.ts, useOperations)\<close>

datatype OperationType = Create | Update | Delete

text \<open>
  \<open>interface Operation\<close>. The payload is \<open>any\<close> in the source; its type is a
  parameter here and \<open>JSON.stringify\<close> on it is an input of the model.
\<close>

record 'p Operation =
  op_id :: string
  op_type :: OperationType
  endpoint :: string
  payload :: 'p
  timestamp :: int
  userId :: string

datatype EntityType = Task | Routine | Course | Teacher

fun entityType_name :: "EntityType \<Rightarrow> string" where
  "entityType_name Task = ''task''"
| "entityType_name Routine = ''routine''"
| "entityType_name Course = ''course''"
| "entityType_name Teacher = ''teacher''"

text \<open>\<open>getStoreKey\<close>: the template literal \<open>`${entityType}_${userId}`\<close>.\<close>

definition getStoreKey :: "EntityType \<Rightarrow> string \<Rightarrow> string" where
  "getStoreKey entityType uid = entityType_name entityType @ ''_'' @ uid"

text \<open>The module-level \<open>operationStore\<close>: a \<open>Map\<close> from store key to operation list.\<close>

type_synonym 'p operationStore = "string \<rightharpoonup> 'p Operation list"

text \<open>\<open>operationStore.get(storeKey) || []\<close>\<close>

definition get_operations :: "'p operationStore \<Rightarrow> string \<Rightarrow> 'p Operation list" where
  "get_operations st k = (case st k of None \<Rightarrow> [] | Some ops \<Rightarrow> ops)"

text \<open>The \<open>RequestInit\<close> object handed to \<open>fetch\<close>.\<close>

record RequestInit =
  http_method :: string
  headers :: "(string \<times> string) list"
  body :: "string option"

text \<open>
  What \<open>await fetch(...)\<close> gives back: a \<open>Response\<close> with its HTTP status, or a
  thrown error. \<open>response.ok\<close> is true for the statuses 200 to 299.
\<close>

datatype fetch_result = Responded nat | Threw js_error

definition response_ok :: "nat \<Rightarrow> bool" where
  "response_ok status = (200 \<le> status \<and> status \<le> 299)"

text \<open>
  The network is an input: a function from the state of the world and the request to the
  result and the next state of the world, so that the same request may be answered
  differently at different times.
\<close>

type_synonym 'w fetch_fn = "'w \<Rightarrow> string \<Rightarrow> RequestInit \<Rightarrow> fetch_result \<times> 'w"

text \<open>
  Lines 226-237: the method is chosen from the operation type, and the JSON body is
  attached for everything but a delete. \<open>JSON.stringify\<close> may throw.
\<close>

definition method_of :: "OperationType \<Rightarrow> string" where
  "method_of t = (if t = Create then ''POST'' else if t = Update then ''PUT'' else ''DELETE'')"

definition build_init :: "('p \<Rightarrow> js_error + string) \<Rightarrow> 'p Operation \<Rightarrow> js_error + RequestInit" where
  "build_init stringify op =
     (let init = \<lparr> http_method = method_of (op_type op),
                   headers = [(''Content-Type'', ''application/json'')],
                   body = None \<rparr>
      in if op_type op \<noteq> Delete
         then (case stringify (payload op) of
                 Inl e \<Rightarrow> Inl e
               | Inr s \<Rightarrow> Inr (init\<lparr> body := Some s \<rparr>))
         else Inr init)"

text \<open>
  Lines 226-240, the request of one operation. What happened is kept as an
  \<open>attempt\<close>: either \<open>JSON.stringify\<close> threw before any request was made, or
  \<open>fetch\<close> was called and answered (or threw).
\<close>

datatype attempt = NoRequest js_error | Fetched fetch_result

definition perform_request ::
  "('p \<Rightarrow> js_error + string) \<Rightarrow> 'w fetch_fn \<Rightarrow> 'p Operation \<Rightarrow> 'w \<Rightarrow> attempt \<times> 'w" where
  "perform_request stringify fetch op w =
     (case build_init stringify op of
        Inl e \<Rightarrow> (NoRequest e, w)
      | Inr init \<Rightarrow> (case fetch w (endpoint op) init of (r, w') \<Rightarrow> (Fetched r, w')))"

text \<open>
  Lines 224-251, the body of the inner \<open>try\<close> for one operation. The first component
  of the result is \<open>None\<close> when the block ran to its end and \<open>Some e\<close> when it threw
  \<open>e\<close>. A response that is not ok is turned into a plain \<open>Error\<close> (not a
  \<open>TypeError\<close>). Only the last statements touch the store: they drop every entry
  with this operation's id.
\<close>

definition try_operation ::
  "('p \<Rightarrow> js_error + string) \<Rightarrow> 'w fetch_fn \<Rightarrow> string \<Rightarrow> 'p Operation \<Rightarrow>
   'w \<times> 'p operationStore \<Rightarrow> (js_error option \<times> attempt) \<times> 'w \<times> 'p operationStore" where
  "try_operation stringify fetch storeKey op ws =
     (case ws of (w, st) \<Rightarrow>
        (case perform_request stringify fetch op w of
           (NoRequest e, w') \<Rightarrow> ((Some e, NoRequest e), w', st)
         | (Fetched (Threw e), w') \<Rightarrow> ((Some e, Fetched (Threw e)), w', st)
         | (Fetched (Responded status), w') \<Rightarrow>
             if \<not> response_ok status
             then ((Some (JsError False
                     (''Failed to execute operation. Status: '' @ show_nat status)),
                    Fetched (Responded status)), w', st)
             else ((None, Fetched (Responded status)), w',
                   st(storeKey \<mapsto>
                      filter (\<lambda>x. op_id x \<noteq> op_id op) (get_operations st storeKey)))))"

text \<open>
  Line 256, the test that ends the walk:
  \<open>error instanceof TypeError && error.message.includes('network')\<close>.
\<close>

definition is_network_error :: "js_error \<Rightarrow> bool" where
  "is_network_error e = (is_TypeError e \<and> str_includes (message e) ''network'')"

text \<open>
  Lines 223-260, \<open>for (const operation of pendingOperations)\<close>: one operation at a
  time, in list order; \<open>break\<close> on a network error, otherwise on to the next. Beside the
  world and the store, the walk returns its trace: each operation it tried, with the
  attempt made for it.
\<close>

fun walk_operations ::
  "('p \<Rightarrow> js_error + string) \<Rightarrow> 'w fetch_fn \<Rightarrow> string \<Rightarrow> 'p Operation list \<Rightarrow>
   'w \<times> 'p operationStore \<Rightarrow> ('w \<times> 'p operationStore) \<times> ('p Operation \<times> attempt) list" where
  "walk_operations stringify fetch storeKey [] ws = (ws, [])"
| "walk_operations stringify fetch storeKey (op # ops) ws =
     (case try_operation stringify fetch storeKey op ws of
        ((None, a), ws') \<Rightarrow>
          (case walk_operations stringify fetch storeKey ops ws' of
             (ws'', tr) \<Rightarrow> (ws'', (op, a) # tr))
      | ((Some e, a), ws') \<Rightarrow>
          if is_network_error e then (ws', [(op, a)])
          else (case walk_operations stringify fetch storeKey ops ws' of
                  (ws'', tr) \<Rightarrow> (ws'', (op, a) # tr)))"

text \<open>
  Reading a trace: the attempts that got a success (2xx) response, the ids of their
  operations, and the attempts whose error the walk takes for a network error.
\<close>

fun attempt_ok :: "attempt \<Rightarrow> bool" where
  "attempt_ok (Fetched (Responded status)) = response_ok status"
| "attempt_ok _ = False"

definition succeeded_ids :: "('p Operation \<times> attempt) list \<Rightarrow> string list" where
  "succeeded_ids tr = map (\<lambda>x. op_id (fst x)) (filter (\<lambda>x. attempt_ok (snd x)) tr)"

fun attempt_stops :: "attempt \<Rightarrow> bool" where
  "attempt_stops (NoRequest e) = is_network_error e"
| "attempt_stops (Fetched (Threw e)) = is_network_error e"
| "attempt_stops (Fetched (Responded status)) = False"

text \<open>The React state of one \<open>useOperations\<close> instance.\<close>

record 'p hook_state =
  pendingOperations :: "'p Operation list"
  isExecuting :: bool

text \<open>
  \<open>executeOperation\<close>, lines 214-269. It does nothing when the pending list is empty or
  a pass is running. Otherwise it walks the pending list of the render it was created
  in, then \<open>loadOperations\<close> copies the store's list back into the state, and
  \<open>isExecuting\<close> is false again at the end.
\<close>

definition executeOperation ::
  "('p \<Rightarrow> js_error + string) \<Rightarrow> 'w fetch_fn \<Rightarrow> EntityType \<Rightarrow> string \<Rightarrow>
   'w \<times> 'p operationStore \<times> 'p hook_state \<Rightarrow>
   ('w \<times> 'p operationStore \<times> 'p hook_state) \<times> ('p Operation \<times> attempt) list" where
  "executeOperation stringify fetch entityType uid s =
     (case s of (w, st, h) \<Rightarrow>
        if pendingOperations h = [] \<or> isExecuting h then ((w, st, h), [])
        else
          (let storeKey = getStoreKey entityType uid in
           case walk_operations stringify fetch storeKey (pendingOperations h) (w, st) of
             ((w', st'), tr) \<Rightarrow>
               ((w', st', \<lparr> pendingOperations = get_operations st' storeKey,
                            isExecuting = False \<rparr>), tr)))"


subsection \<open>A queue of three operations\<close>

text \<open>
  Example data: operations of user \<open>u1\<close> on tasks, and a network that answers each
  endpoint the same way every time.
\<close>

definition example_op :: "string \<Rightarrow> OperationType \<Rightarrow> string \<Rightarrow> string Operation" where
  "example_op i t ep =
     \<lparr> op_id = i, op_type = t, endpoint = ep, payload = ''{}'', timestamp = 0, userId = ''u1'' \<rparr>"

definition op_A :: "string Operation" where
  "op_A = example_op ''task_1_a'' Create ''/tasks''"

definition op_B :: "string Operation" where
  "op_B = example_op ''task_2_b'' Update ''/tasks/2''"

definition op_C :: "string Operation" where
  "op_C = example_op ''task_3_c'' Delete ''/tasks/3''"

definition example_fetch :: "(string \<Rightarrow> fetch_result) \<Rightarrow> unit fetch_fn" where
  "example_fetch answer w ep init = (answer ep, w)"

definition queued :: "string Operation list \<Rightarrow> unit \<times> string operationStore \<times> string hook_state" where
  "queued ops = ((), [''task_u1'' \<mapsto> ops], \<lparr> pendingOperations = ops, isExecuting = False \<rparr>)"

section \<open>Durable store (src/utils/offlineStorage.ts)\<close>

subsection \<open>Records as JavaScript objects\<close>

text \<open>
  The records are \<open>any\<close> in the source. The model keeps an object as its list of
  properties, with the primitive values the code looks at. Numbers are the integers
  (ids and epoch milliseconds); \<open>NaN\<close> only arises from dates and is modelled there.
\<close>

datatype js_value = JUndefined | JNull | JBool bool | JNum int | JStr string

type_synonym js_object = "(string \<times> js_value) list"

text \<open>Reading a property (\<open>undefined\<close> when absent) and assigning one.\<close>

definition get_prop :: "js_object \<Rightarrow> string \<Rightarrow> js_value" where
  "get_prop obj name = (case map_of obj name of None \<Rightarrow> JUndefined | Some v \<Rightarrow> v)"

fun set_prop :: "js_object \<Rightarrow> string \<Rightarrow> js_value \<Rightarrow> js_object" where
  "set_prop [] name v = [(name, v)]"
| "set_prop ((m, u) # ps) name v =
     (if m = name then (name, v) # ps else (m, u) # set_prop ps name v)"

text \<open>JavaScript truthiness, as used by \<open>!item.cached_at\<close>.\<close>

fun truthy :: "js_value \<Rightarrow> bool" where
  "truthy JUndefined = False"
| "truthy JNull = False"
| "truthy (JBool b) = b"
| "truthy (JNum n) = (n \<noteq> 0)"
| "truthy (JStr s) = (s \<noteq> [])"

subsection \<open>The IndexedDB database\<close>

text \<open>
  IndexedDB itself is the browser's. Its part in the model: a database is its object
  stores by name (\<open>objectStoreNames\<close> is the list of names); every store of
  \<open>openDatabase\<close> has the key path \<open>id\<close>, so a record's key is read from its
  \<open>id\<close> property; numbers and strings are the valid keys of the model, numbers
  sorting before strings; a store keeps its records in key order. The four pending
  stores are created with \<open>autoIncrement\<close> and own a key generator.
\<close>

datatype idb_key = KNum int | KStr string

fun to_key :: "js_value \<Rightarrow> idb_key option" where
  "to_key (JNum n) = Some (KNum n)"
| "to_key (JStr s) = Some (KStr s)"
| "to_key _ = None"

definition key_of :: "js_object \<Rightarrow> idb_key option" where
  "key_of obj = to_key (get_prop obj ''id'')"

fun string_less :: "string \<Rightarrow> string \<Rightarrow> bool" where
  "string_less [] [] = False"
| "string_less [] (b # bs) = True"
| "string_less (a # as) [] = False"
| "string_less (a # as) (b # bs) =
     ((of_char a :: nat) < of_char b \<or> (a = b \<and> string_less as bs))"

fun key_less :: "idb_key \<Rightarrow> idb_key \<Rightarrow> bool" where
  "key_less (KNum a) (KNum b) = (a < b)"
| "key_less (KNum a) (KStr b) = True"
| "key_less (KStr a) (KNum b) = False"
| "key_less (KStr a) (KStr b) = string_less a b"

record object_store =
  autoIncrement :: bool
  keyGenerator :: int
  records :: "js_object list"

type_synonym database = "(string \<times> object_store) list"

definition set_store :: "database \<Rightarrow> string \<Rightarrow> object_store \<Rightarrow> database" where
  "set_store db name s = map (\<lambda>(n, t). if n = name then (n, s) else (n, t)) db"

text \<open>The errors IndexedDB itself throws: an unknown store name, an invalid key.\<close>

definition NotFoundError :: js_error where
  "NotFoundError = JsError False ''NotFoundError''"

definition DataError :: js_error where
  "DataError = JsError False ''DataError''"

text \<open>Replacing or inserting a record under its key, keeping key order.\<close>

fun upsert :: "idb_key \<Rightarrow> js_object \<Rightarrow> js_object list \<Rightarrow> js_object list" where
  "upsert k obj [] = [obj]"
| "upsert k obj (x # xs) =
     (case key_of x of
        None \<Rightarrow> x # upsert k obj xs
      | Some kx \<Rightarrow>
          if kx = k then obj # xs
          else if key_less k kx then obj # x # xs
          else x # upsert k obj xs)"

text \<open>
  \<open>store.put(item)\<close>: in-line keys. A valid \<open>id\<close> is the key (and moves the key
  generator of an auto-increment store past it); a missing \<open>id\<close> gets the next
  generated key in an auto-increment store; anything else throws a \<open>DataError\<close>.
\<close>

definition store_put :: "object_store \<Rightarrow> js_object \<Rightarrow> js_error + object_store" where
  "store_put s obj =
     (case key_of obj of
        Some k \<Rightarrow>
          Inr (s\<lparr> records := upsert k obj (records s),
                  keyGenerator :=
                    (case k of
                       KNum n \<Rightarrow> if autoIncrement s \<and> keyGenerator s \<le> n then n + 1
                                 else keyGenerator s
                     | KStr _ \<Rightarrow> keyGenerator s) \<rparr>)
      | None \<Rightarrow>
          if autoIncrement s \<and> get_prop obj ''id'' = JUndefined
          then Inr (s\<lparr> records := upsert (KNum (keyGenerator s))
                                     (set_prop obj ''id'' (JNum (keyGenerator s))) (records s),
                        keyGenerator := keyGenerator s + 1 \<rparr>)
          else Inl DataError)"

definition store_get :: "object_store \<Rightarrow> idb_key \<Rightarrow> js_object option" where
  "store_get s k = find (\<lambda>x. key_of x = Some k) (records s)"

definition store_delete :: "object_store \<Rightarrow> idb_key \<Rightarrow> object_store" where
  "store_delete s k = s\<lparr> records := filter (\<lambda>x. key_of x \<noteq> Some k) (records s) \<rparr>"

text \<open>
  What can go wrong in one call is an input: \<open>openDatabase\<close> may reject, and the
  \<open>i\<close>-th request of the call's transaction may fire \<open>onerror\<close>. A request that
  fails aborts its transaction, which undoes every write of the transaction.
\<close>

record idb_env =
  open_error :: "js_error option"
  request_error :: "nat \<Rightarrow> js_error option"

fun first_error :: "(nat \<Rightarrow> js_error option) \<Rightarrow> nat list \<Rightarrow> js_error option" where
  "first_error f [] = None"
| "first_error f (i # ns) = (case f i of Some e \<Rightarrow> Some e | None \<Rightarrow> first_error f ns)"

subsection \<open>saveToIndexedDB\<close>

text \<open>
  Lines 124-126 and 145-147: \<open>cached_at\<close> is stamped with
  \<open>new Date().toISOString()\<close> when the record has no truthy one.
\<close>

definition stamp :: "string \<Rightarrow> js_object \<Rightarrow> js_object" where
  "stamp isoString item =
     (if \<not> truthy (get_prop item ''cached_at'')
      then set_prop item ''cached_at'' (JStr isoString)
      else item)"

text \<open>
  Lines 122-141, \<open>data.forEach\<close>: each item is stamped and put, in order. \<open>clock i\<close>
  is what \<open>new Date().toISOString()\<close> reads at item \<open>i\<close>. A \<open>put\<close> that throws
  ends the \<open>forEach\<close>. The result is the error thrown (if any), the number of
  requests made, and the store with those requests applied.
\<close>

fun put_all ::
  "(nat \<Rightarrow> string) \<Rightarrow> nat \<Rightarrow> object_store \<Rightarrow> js_object list \<Rightarrow>
   js_error option \<times> nat \<times> object_store" where
  "put_all clock i s [] = (None, i, s)"
| "put_all clock i s (item # rest) =
     (case store_put s (stamp (clock i) item) of
        Inl e \<Rightarrow> (Some e, i, s)
      | Inr s' \<Rightarrow> put_all clock (Suc i) s' rest)"

datatype save_data = Single js_object | Many "js_object list"

text \<open>
  \<open>saveToIndexedDB\<close>, lines 108-174, with the promise it returns and the database
  once the transaction is over.
  \<^item> \<open>await openDatabase()\<close> rejecting is caught and thrown again.
  \<^item> An unknown store makes \<open>db.transaction\<close> throw inside the promise executor: the
    promise is rejected.
  \<^item> Array: \<open>resolve\<close> is only called from a request's \<open>onsuccess\<close>, when the count
    of successes reaches \<open>data.length\<close>; \<open>reject\<close> from a request's \<open>onerror\<close>, or
    by a \<open>put\<close> that throws. A \<open>put\<close> that throws leaves the requests made before it
    in the transaction, which commits unless one of them fails.
  \<^item> Single item: one request.
\<close>

definition saveToIndexedDB ::
  "idb_env \<Rightarrow> (nat \<Rightarrow> string) \<Rightarrow> database \<Rightarrow> string \<Rightarrow> save_data \<Rightarrow> unit promise \<times> database" where
  "saveToIndexedDB env clock db storeName payload_data =
     (case open_error env of
        Some e \<Rightarrow> (Rejected e, db)
      | None \<Rightarrow>
          (case map_of db storeName of
             None \<Rightarrow> (Rejected NotFoundError, db)
           | Some s \<Rightarrow>
               (case payload_data of
                  Many items \<Rightarrow>
                    (case put_all clock 0 s items of
                       (Some e, n, s') \<Rightarrow>
                         (Rejected e,
                          if first_error (request_error env) [0..<n] = None
                          then set_store db storeName s' else db)
                     | (None, n, s') \<Rightarrow>
                         (case first_error (request_error env) [0..<n] of
                            Some e \<Rightarrow> (Rejected e, db)
                          | None \<Rightarrow>
                              (if n = 0 then Pending else Fulfilled (),
                               set_store db storeName s')))
                | Single item \<Rightarrow>
                    (case store_put s (stamp (clock 0) item) of
                       Inl e \<Rightarrow> (Rejected e, db)
                     | Inr s' \<Rightarrow>
                         (case request_error env 0 of
                            Some e \<Rightarrow> (Rejected e, db)
                          | None \<Rightarrow> (Fulfilled (), set_store db storeName s'))))))"

subsection \<open>Reading and deleting\<close>

text \<open>
  \<open>getAllFromIndexedDB\<close>, lines 180-206. The \<open>try\<close> block awaits only
  \<open>openDatabase()\<close>; the promise built afterwards is returned without \<open>await\<close>, so
  the function has left the \<open>try\<close> block by the time that promise settles, and a
  rejection of it (the request's \<open>onerror\<close>, or \<open>db.transaction\<close> throwing inside
  the executor) goes to the caller. The \<open>catch\<close> block, which returns \<open>[]\<close>, is
  reached by a failed open only.
\<close>

definition getAllFromIndexedDB :: "idb_env \<Rightarrow> database \<Rightarrow> string \<Rightarrow> js_object list promise" where
  "getAllFromIndexedDB env db storeName =
     (case open_error env of
        Some e \<Rightarrow> Fulfilled []
      | None \<Rightarrow>
          (case map_of db storeName of
             None \<Rightarrow> Rejected NotFoundError
           | Some s \<Rightarrow>
               (case request_error env 0 of
                  Some e \<Rightarrow> Rejected e
                | None \<Rightarrow> Fulfilled (records s))))"

text \<open>
  \<open>getByIdFromIndexedDB\<close>, lines 213-239: the same shape; \<open>request.result || null\<close>
  is the record or \<open>null\<close> (\<open>None\<close>). The id is the value passed at run time; one
  that is not a valid key makes \<open>store.get\<close> throw a \<open>DataError\<close>.
\<close>

definition getByIdFromIndexedDB ::
  "idb_env \<Rightarrow> database \<Rightarrow> string \<Rightarrow> js_value \<Rightarrow> js_object option promise" where
  "getByIdFromIndexedDB env db storeName ident =
     (case open_error env of
        Some e \<Rightarrow> Fulfilled None
      | None \<Rightarrow>
          (case map_of db storeName of
             None \<Rightarrow> Rejected NotFoundError
           | Some s \<Rightarrow>
               (case to_key ident of
                  None \<Rightarrow> Rejected DataError
                | Some k \<Rightarrow>
                    (case request_error env 0 of
                       Some e \<Rightarrow> Rejected e
                     | None \<Rightarrow> Fulfilled (store_get s k)))))"

text \<open>\<open>deleteFromIndexedDB\<close>, lines 246-272; its \<open>catch\<close> block throws the error again.\<close>

definition deleteFromIndexedDB ::
  "idb_env \<Rightarrow> database \<Rightarrow> string \<Rightarrow> js_value \<Rightarrow> unit promise \<times> database" where
  "deleteFromIndexedDB env db storeName ident =
     (case open_error env of
        Some e \<Rightarrow> (Rejected e, db)
      | None \<Rightarrow>
          (case map_of db storeName of
             None \<Rightarrow> (Rejected NotFoundError, db)
           | Some s \<Rightarrow>
               (case to_key ident of
                  None \<Rightarrow> (Rejected DataError, db)
                | Some k \<Rightarrow>
                    (case request_error env 0 of
                       Some e \<Rightarrow> (Rejected e, db)
                     | None \<Rightarrow> (Fulfilled (), set_store db storeName (store_delete s k))))))"

subsection \<open>cleanupStaleCacheData\<close>

definition CACHE_EXPIRATION :: int where
  "CACHE_EXPIRATION = 4 * 60 * 60 * 1000"

text \<open>
  Lines 332-345, the test on one record. \<open>getTime v\<close> stands for
  \<open>new Date(v).getTime()\<close>, with \<open>None\<close> for \<open>NaN\<close> (an unparseable date); a
  comparison with \<open>NaN\<close> is false.
\<close>

definition is_stale :: "(js_value \<Rightarrow> int option) \<Rightarrow> int \<Rightarrow> js_object \<Rightarrow> bool" where
  "is_stale getTime now item =
     (if \<not> truthy (get_prop item ''cached_at'') then False
      else (case getTime (get_prop item ''cached_at'') of
              None \<Rightarrow> False
            | Some cachedAt \<Rightarrow> now - cachedAt > CACHE_EXPIRATION))"

text \<open>
  The faults one run of the cleanup can meet: its own open, the \<open>getAll\<close> request of a
  store, and whatever each \<open>deleteFromIndexedDB(storeName, item.id)\<close> meets.
\<close>

record cleanup_env =
  cleanup_open_error :: "js_error option"
  getAll_error :: "string \<Rightarrow> js_error option"
  delete_env :: "string \<Rightarrow> js_value \<Rightarrow> idb_env"

text \<open>
  Line 343: one \<open>deleteFromIndexedDB\<close> per stale record; a delete that rejects is
  logged by the \<open>catch\<close> of line 347.
\<close>

fun delete_items :: "cleanup_env \<Rightarrow> string \<Rightarrow> js_object list \<Rightarrow> database \<Rightarrow> database" where
  "delete_items env storeName [] db = db"
| "delete_items env storeName (item # rest) db =
     delete_items env storeName rest
       (snd (deleteFromIndexedDB (delete_env env storeName (get_prop item ''id'')) db
               storeName (get_prop item ''id'')))"

text \<open>Lines 324-354, one store: the \<open>getAll\<close> request and its \<open>onsuccess\<close> callback.\<close>

definition cleanup_store ::
  "cleanup_env \<Rightarrow> (js_value \<Rightarrow> int option) \<Rightarrow> int \<Rightarrow> string \<Rightarrow> database \<Rightarrow> database" where
  "cleanup_store env getTime now storeName db =
     (case map_of db storeName of
        None \<Rightarrow> db
      | Some s \<Rightarrow>
          (case getAll_error env storeName of
             Some e \<Rightarrow> db
           | None \<Rightarrow> delete_items env storeName (filter (is_stale getTime now) (records s)) db))"

text \<open>
  \<open>cleanupStaleCacheData\<close>, lines 309-361. \<open>now\<close> is \<open>new Date().getTime()\<close> at
  line 312. The function only starts the requests: its promise is fulfilled at once
  (a failed open is caught and logged), and the deletes run from the callbacks. The
  database returned is the one left when all callbacks have run, no other writer
  being active meanwhile. Stores whose name starts with \<open>pending\<close> are skipped.
\<close>

definition cleanupStaleCacheData ::
  "cleanup_env \<Rightarrow> (js_value \<Rightarrow> int option) \<Rightarrow> int \<Rightarrow> database \<Rightarrow> unit promise \<times> database" where
  "cleanupStaleCacheData env getTime now db =
     (case cleanup_open_error env of
        Some e \<Rightarrow> (Fulfilled (), db)
      | None \<Rightarrow>
          (Fulfilled (),
           fold (\<lambda>storeName d.
                   if startsWith storeName ''pending'' then d
                   else cleanup_store env getTime now storeName d)
                (map fst db) db))"

subsection \<open>Well-formed databases, fault-free runs, example data\<close>

text \<open>
  What IndexedDB guarantees of any database: store names are distinct, and within a
  store every record has a valid key and no two records share one.
\<close>

definition wf_store :: "object_store \<Rightarrow> bool" where
  "wf_store s =
     (distinct (map key_of (records s)) \<and> list_all (\<lambda>x. key_of x \<noteq> None) (records s))"

definition wf_database :: "database \<Rightarrow> bool" where
  "wf_database db = (distinct (map fst db) \<and> list_all (\<lambda>p. wf_store (snd p)) db)"

text \<open>A run of the cleanup in which the open, every read and every delete succeed.\<close>

definition no_faults :: "cleanup_env \<Rightarrow> bool" where
  "no_faults env =
     (cleanup_open_error env = None \<and> (\<forall>n. getAll_error env n = None) \<and>
      (\<forall>n i. open_error (delete_env env n i) = None \<and>
             request_error (delete_env env n i) 0 = None))"

definition healthy :: idb_env where
  "healthy = \<lparr> open_error = None, request_error = (\<lambda>i. None) \<rparr>"

definition healthy_cleanup :: cleanup_env where
  "healthy_cleanup =
     \<lparr> cleanup_open_error = None, getAll_error = (\<lambda>n. None), delete_env = (\<lambda>n i. healthy) \<rparr>"

text \<open>
  Example data: a \<open>tasks\<close> store with a record cached five hours before \<open>example_now\<close>,
  one cached an hour before it and one without \<open>cached_at\<close>, and a pending store with an
  old record. \<open>example_getTime\<close> reads the two dates used.
\<close>

definition example_getTime :: "js_value \<Rightarrow> int option" where
  "example_getTime v =
     (if v = JStr ''2024-01-01T00:00:00.000Z'' then Some 1704067200000
      else if v = JStr ''2024-01-01T04:00:00.000Z'' then Some 1704081600000
      else None)"

definition example_now :: int where
  "example_now = 1704085200000"

definition example_db :: database where
  "example_db =
     [(''pendingTaskOperations'',
       \<lparr> autoIncrement = True, keyGenerator = 2,
         records = [[(''id'', JNum 1), (''cached_at'', JStr ''2024-01-01T00:00:00.000Z'')]] \<rparr>),
      (''tasks'',
       \<lparr> autoIncrement = False, keyGenerator = 1,
         records =
           [[(''id'', JStr ''t1''), (''cached_at'', JStr ''2024-01-01T00:00:00.000Z'')],
            [(''id'', JStr ''t2''), (''cached_at'', JStr ''2024-01-01T04:00:00.000Z'')],
            [(''id'', JStr ''t3''), (''name'', JStr ''Essay'')]] \<rparr>)]"

text \<open>A store without the records the cleanup takes for stale.\<close>

definition without_stale :: "(js_value \<Rightarrow> int option) \<Rightarrow> int \<Rightarrow> object_store \<Rightarrow> object_store" where
  "without_stale getTime now s =
     s\<lparr> records := filter (\<lambda>x. \<not> is_stale getTime now x) (records s) \<rparr>"

text \<open>
  The database once the cleanup has handled the stores named in \<open>seen\<close>: of those,
  the ones that are not pending stores have lost their stale records.
\<close>

definition cleaned :: "(js_value \<Rightarrow> int option) \<Rightarrow> int \<Rightarrow> string set \<Rightarrow> database \<Rightarrow> database" where
  "cleaned getTime now seen db =
     map (\<lambda>(n, s). (n, if n \<in> seen \<and> \<not> startsWith n ''pending''
                         then without_stale getTime now s else s)) db"

section \<open>Network cache controller (public/service-worker.js)\<close>

definition STATIC_CACHE_NAME :: string where
  "STATIC_CACHE_NAME = ''nesttask-static-v2''"

definition DYNAMIC_CACHE_NAME :: string where
  "DYNAMIC_CACHE_NAME = ''nesttask-dynamic-v2''"

definition OFFLINE_URL :: string where
  "OFFLINE_URL = ''/offline.html''"

definition PRECACHE_ASSETS :: "string list" where
  "PRECACHE_ASSETS = [''/'', ''/offline.html'', ''/icons/icon-192x192.png'']"

text \<open>
  A request is its absolute URL, its mode and its method; a response is its status and
  its content. The network is an input: \<open>None\<close> is a \<open>fetch\<close> that rejects.
\<close>

record sw_request =
  url :: string
  mode :: string
  request_method :: string

record sw_response =
  resp_status :: nat
  content :: string

type_synonym network = "sw_request \<Rightarrow> sw_response option"

text \<open>
  The Cache API, the browser's: a cache maps request URLs to responses, and the cache
  storage holds the caches by name, in the order they were created. Requests are
  compared by URL with the fragment (the part from \<open>#\<close> on) left out, query string
  included, so a cache is keyed by the URL without its fragment. Only a GET request
  matches; \<open>caches.match\<close> asks the caches in order. The responses of the model
  have no \<open>Vary\<close> header (the site sets none), so nothing else decides a match.
\<close>

type_synonym cache = "(string \<times> sw_response) list"

type_synonym cache_storage = "(string \<times> cache) list"

definition strip_fragment :: "string \<Rightarrow> string" where
  "strip_fragment u = takeWhile (\<lambda>c. c \<noteq> CHR ''#'') u"

definition cache_key :: "sw_request \<Rightarrow> string" where
  "cache_key req = strip_fragment (url req)"

definition cache_match :: "cache \<Rightarrow> sw_request \<Rightarrow> sw_response option" where
  "cache_match c req = (if request_method req = ''GET'' then map_of c (cache_key req) else None)"

fun caches_match :: "cache_storage \<Rightarrow> sw_request \<Rightarrow> sw_response option" where
  "caches_match [] req = None"
| "caches_match ((name, c) # cs) req =
     (case cache_match c req of Some r \<Rightarrow> Some r | None \<Rightarrow> caches_match cs req)"

text \<open>A URL string given where a request is expected: a GET of the URL, resolved against the worker's origin.\<close>

definition url_request :: "string \<Rightarrow> string \<Rightarrow> sw_request" where
  "url_request origin path = \<lparr> url = origin @ path, mode = ''cors'', request_method = ''GET'' \<rparr>"

definition caches_keys :: "cache_storage \<Rightarrow> string list" where
  "caches_keys cs = map fst cs"

definition caches_delete :: "string \<Rightarrow> cache_storage \<Rightarrow> cache_storage" where
  "caches_delete name cs = filter (\<lambda>p. fst p \<noteq> name) cs"

definition caches_open :: "string \<Rightarrow> cache_storage \<Rightarrow> cache_storage" where
  "caches_open name cs = (if name \<in> set (map fst cs) then cs else cs @ [(name, [])])"

fun cache_put :: "cache \<Rightarrow> string \<Rightarrow> sw_response \<Rightarrow> cache" where
  "cache_put [] u r = [(u, r)]"
| "cache_put ((v, q) # c) u r = (if v = u then (u, r) # c else (v, q) # cache_put c u r)"

text \<open>
  \<open>caches.open(name).then(cache => cache.put(request, response))\<close>: the cache is
  opened (created if need be); \<open>put\<close> refuses a request that is not a GET, and that
  rejection is not handled anywhere.
\<close>

definition caches_put :: "string \<Rightarrow> sw_request \<Rightarrow> sw_response \<Rightarrow> cache_storage \<Rightarrow> cache_storage" where
  "caches_put name req r cs =
     (if request_method req = ''GET''
      then map (\<lambda>(n, c). if n = name then (n, cache_put c (cache_key req) r) else (n, c))
               (caches_open name cs)
      else caches_open name cs)"

subsection \<open>install\<close>

text \<open>
  Lines 23-31. \<open>cache.addAll\<close> fetches every asset and stores them only if every
  fetch gave an ok response; otherwise it rejects and the install fails. The boolean
  says whether the install succeeded.
\<close>

fun fetch_all :: "string \<Rightarrow> network \<Rightarrow> string list \<Rightarrow> (sw_request \<times> sw_response) list option" where
  "fetch_all origin net [] = Some []"
| "fetch_all origin net (p # ps) =
     (case net (url_request origin p) of
        None \<Rightarrow> None
      | Some r \<Rightarrow>
          if \<not> response_ok (resp_status r) then None
          else (case fetch_all origin net ps of
                  None \<Rightarrow> None
                | Some rs \<Rightarrow> Some ((url_request origin p, r) # rs)))"

definition install :: "string \<Rightarrow> network \<Rightarrow> cache_storage \<Rightarrow> bool \<times> cache_storage" where
  "install origin net cs =
     (case fetch_all origin net PRECACHE_ASSETS of
        None \<Rightarrow> (False, caches_open STATIC_CACHE_NAME cs)
      | Some rs \<Rightarrow>
          (True, fold (\<lambda>(req, r) d. caches_put STATIC_CACHE_NAME req r d) rs
                      (caches_open STATIC_CACHE_NAME cs)))"

subsection \<open>activate\<close>

text \<open>
  Lines 34-45: for every key of \<open>caches.keys()\<close>, the cache is deleted when the key is
  neither the static nor the dynamic cache name.
\<close>

definition activate :: "cache_storage \<Rightarrow> cache_storage" where
  "activate cs =
     fold (\<lambda>key d. if key \<noteq> STATIC_CACHE_NAME \<and> key \<noteq> DYNAMIC_CACHE_NAME
                    then caches_delete key d else d)
          (caches_keys cs) cs"

subsection \<open>fetch\<close>

text \<open>
  What the listener does with the event: it returns without \<open>respondWith\<close> (the
  browser handles the request as if there were no worker), or it responds with a
  promise that resolves to a response or to \<open>undefined\<close> (\<open>None\<close>), or that rejects.
\<close>

datatype fetch_event_result = NotIntercepted | RespondWith "sw_response option" | RespondRejected

definition endsWith :: "string \<Rightarrow> string \<Rightarrow> bool" where
  "endsWith s suffix = startsWith (rev s) (rev suffix)"

text \<open>Line 80: \<open>/\.(css|js|woff2|woff|ttf|svg|png|jpg|jpeg|gif|webp)$/\<close>\<close>

definition is_static_asset :: "string \<Rightarrow> bool" where
  "is_static_asset u =
     list_ex (\<lambda>ext. endsWith u (''.'' @ ext))
       [''css'', ''js'', ''woff2'', ''woff'', ''ttf'', ''svg'', ''png'', ''jpg'', ''jpeg'',
        ''gif'', ''webp'']"

text \<open>A network response is returned, and cached under \<open>name\<close> when it is ok.\<close>

definition cache_if_ok :: "string \<Rightarrow> sw_request \<Rightarrow> sw_response \<Rightarrow> cache_storage \<Rightarrow> cache_storage" where
  "cache_if_ok name req r cs = (if response_ok (resp_status r) then caches_put name req r cs else cs)"

text \<open>
  The fetch listener, lines 48-129, in the order of the source: the guard on the
  origin, analytics and API paths; navigations; static assets; everything else.
\<close>

definition fetch_listener ::
  "string \<Rightarrow> network \<Rightarrow> sw_request \<Rightarrow> cache_storage \<Rightarrow> fetch_event_result \<times> cache_storage" where
  "fetch_listener origin net req cs =
     (if \<not> startsWith (url req) origin \<or> str_includes (url req) ''_vercel/insights''
         \<or> str_includes (url req) ''/api/''
      then (NotIntercepted, cs)
      else if mode req = ''navigate'' then
        (case caches_match cs req of
           Some cached \<Rightarrow> (RespondWith (Some cached), cs)
         | None \<Rightarrow>
             (case net req of
                Some r \<Rightarrow> (RespondWith (Some r), cache_if_ok STATIC_CACHE_NAME req r cs)
              | None \<Rightarrow> (RespondWith (caches_match cs (url_request origin OFFLINE_URL)), cs)))
      else if is_static_asset (url req) then
        (case caches_match cs req of
           Some cached \<Rightarrow>
             (RespondWith (Some cached),
              if str_includes (url req) ''main'' \<or> str_includes (url req) ''vendor''
                 \<or> str_includes (url req) ''icon''
              then (case net req of
                      Some r \<Rightarrow> cache_if_ok STATIC_CACHE_NAME req r cs
                    | None \<Rightarrow> cs)
              else cs)
         | None \<Rightarrow>
             (case net req of
                Some r \<Rightarrow> (RespondWith (Some r), cache_if_ok STATIC_CACHE_NAME req r cs)
              | None \<Rightarrow> (RespondRejected, cs)))
      else
        (case net req of
           Some r \<Rightarrow> (RespondWith (Some r), cache_if_ok DYNAMIC_CACHE_NAME req r cs)
         | None \<Rightarrow> (RespondWith (caches_match cs req), cs)))"

text \<open>
  Example data: the app's origin, a network that serves the three precached assets, and
  the cache storage a first install leaves.
\<close>

definition example_origin :: string where
  "example_origin = ''https://nesttask.app''"

definition offline_page :: sw_response where
  "offline_page = \<lparr> resp_status = 200, content = ''You are offline'' \<rparr>"

definition online :: network where
  "online req =
     (if url req = ''https://nesttask.app/offline.html'' then Some offline_page
      else Some \<lparr> resp_status = 200, content = ''NestTask'' \<rparr>)"

definition offline :: network where
  "offline req = None"

definition installed_caches :: cache_storage where
  "installed_caches =
     [(''nesttask-static-v2'',
       [(''https://nesttask.app/'', \<lparr> resp_status = 200, content = ''NestTask'' \<rparr>),
        (''https://nesttask.app/offline.html'', offline_page),
        (''https://nesttask.app/icons/icon-192x192.png'',
         \<lparr> resp_status = 200, content = ''NestTask'' \<rparr>)])]"

text \<open>Some cache named \<open>name\<close> holds an entry under the key \<open>u\<close>.\<close>

definition holds :: "cache_storage \<Rightarrow> string \<Rightarrow> string \<Rightarrow> bool" where
  "holds cs name u = (\<exists>c. (name, c) \<in> set cs \<and> map_of c u \<noteq> None)"

section \<open>Lifecycle supervisor (src/unnamed/part_002: keep-alive and reinstall)\<close>

datatype worker_status = Active | Inactive | Errored

text \<open>\<open>interface ServiceWorkerMetadata\<close>; its \<open>status\<close> field is \<open>sw_status\<close> here.\<close>

record ServiceWorkerMetadata =
  lastPing :: int
  lastResponse :: int
  sw_status :: worker_status
  errors :: "string list"
  reinstallCount :: int
  lastReinstall :: "int option"

text \<open>
  \<open>sessionStorage\<close> under the key \<open>sw_metadata\<close>: the item, if any, and whether
  \<open>setItem\<close> works (it throws when the storage is full or disabled; the code catches
  that and carries on without saving).
\<close>

record session_storage =
  sw_metadata :: "ServiceWorkerMetadata option"
  writable :: bool

definition default_metadata :: ServiceWorkerMetadata where
  "default_metadata =
     \<lparr> lastPing = 0, lastResponse = 0, sw_status = Inactive, errors = [],
       reinstallCount = 0, lastReinstall = None \<rparr>"

definition getServiceWorkerMetadata :: "session_storage \<Rightarrow> ServiceWorkerMetadata" where
  "getServiceWorkerMetadata st = (case sw_metadata st of None \<Rightarrow> default_metadata | Some m \<Rightarrow> m)"

definition saveServiceWorkerMetadata :: "ServiceWorkerMetadata \<Rightarrow> session_storage \<Rightarrow> session_storage" where
  "saveServiceWorkerMetadata m st = (if writable st then st\<lparr> sw_metadata := Some m \<rparr> else st)"

text \<open>\<open>errors.push(msg)\<close>, then \<open>slice(-10)\<close> when there are more than ten.\<close>

definition push_error :: "string \<Rightarrow> ServiceWorkerMetadata \<Rightarrow> ServiceWorkerMetadata" where
  "push_error msg m =
     (let es = errors m @ [msg]
      in m\<lparr> errors := (if length es > 10 then drop (length es - 10) es else es) \<rparr>)"

text \<open>
  What one round of the keep-alive interval meets, all of it input: how the ping and the
  health check end, the readings of the clock (\<open>now_at\<close> is \<open>Date.now()\<close> at line
  221), the ISO string of the time, and whether the reinstall runs into an exception.
\<close>

datatype ping_outcome = NoController | PingTimeout | PingThrows | PingReply bool

datatype health_outcome =
  HealthNoController | HealthTimeout | HealthThrows | HealthReply bool | HealthOtherReply

datatype reinstall_fault = NoFault | UnregisterFails | CacheClearFails | RegisterFails

record tick =
  ping :: ping_outcome
  health :: health_outcome
  ping_at :: int
  reply_at :: int
  now_at :: int
  iso_time :: string
  fault :: reinstall_fault

text \<open>
  \<open>pingServiceWorker\<close>, lines 96-158. Without a registration or a controller it
  returns false at once. Otherwise it records the ping time; a timeout after three
  seconds records an error and the status \<open>errored\<close> (\<open>record_ping_timeout\<close>,
  the timer callback of lines 114-127) and only then gives false; a
  \<open>KEEP_ALIVE_RESPONSE\<close> (\<open>PingReply True\<close>) records the response time and the
  status \<open>active\<close>. When \<open>postMessage\<close> throws, the function returns false from
  its \<open>catch\<close> block at once; the timer, already set, still fires three seconds
  after it was set, which is part of the round below.
\<close>

definition record_ping_timeout :: "tick \<Rightarrow> session_storage \<Rightarrow> session_storage" where
  "record_ping_timeout t st =
     saveServiceWorkerMetadata
       ((push_error (''Ping timeout at '' @ iso_time t) (getServiceWorkerMetadata st))
          \<lparr> sw_status := Errored \<rparr>) st"

definition pingServiceWorker :: "tick \<Rightarrow> session_storage \<Rightarrow> bool \<times> session_storage" where
  "pingServiceWorker t st =
     (case ping t of
        NoController \<Rightarrow> (False, st)
      | PingTimeout \<Rightarrow>
          (False, record_ping_timeout t
                    (saveServiceWorkerMetadata
                       ((getServiceWorkerMetadata st)\<lparr> lastPing := ping_at t \<rparr>) st))
      | PingThrows \<Rightarrow>
          (False, saveServiceWorkerMetadata
                    ((getServiceWorkerMetadata st)\<lparr> lastPing := ping_at t \<rparr>) st)
      | PingReply keepAlive \<Rightarrow>
          (let st1 = saveServiceWorkerMetadata
                       ((getServiceWorkerMetadata st)\<lparr> lastPing := ping_at t \<rparr>) st
           in if keepAlive
              then (True, saveServiceWorkerMetadata
                            ((getServiceWorkerMetadata st1)\<lparr> lastResponse := reply_at t,
                                                             sw_status := Active \<rparr>) st1)
              else (False, st1)))"

text \<open>
  \<open>checkServiceWorkerHealth\<close>, lines 161-201: true only for a \<open>HEALTH_STATUS\<close>
  reply whose \<open>isResponding\<close> is true.
\<close>

definition checkServiceWorkerHealth :: "tick \<Rightarrow> bool" where
  "checkServiceWorkerHealth t = (case health t of HealthReply isResponding \<Rightarrow> isResponding | _ \<Rightarrow> False)"

text \<open>
  \<open>reinstallServiceWorker\<close>, lines 253-282, as the steps it completes: unregister all
  registrations, delete all caches, register the worker. An exception at a step is
  caught and ends the function.
\<close>

datatype action = UnregisterAll | DeleteAllCaches | RegisterWorker

definition reinstallServiceWorker :: "reinstall_fault \<Rightarrow> action list" where
  "reinstallServiceWorker f =
     (case f of
        NoFault \<Rightarrow> [UnregisterAll, DeleteAllCaches, RegisterWorker]
      | UnregisterFails \<Rightarrow> []
      | CacheClearFails \<Rightarrow> [UnregisterAll]
      | RegisterFails \<Rightarrow> [UnregisterAll, DeleteAllCaches])"

text \<open>
  What a round did: nothing (the worker answered), a call of
  \<open>reinstallServiceWorker\<close> with the steps it completed, or the refusal of line 235,
  which only logs an error.
\<close>

datatype round_result = Alive | Reinstall "action list" | TooManyReinstalls

text \<open>
  Lines 219-241, the throttle. \<open>lastReinstall\<close> is tested three ways: against
  \<open>null\<close>, by comparison, and for truthiness (zero is falsy) in \<open>a && b\<close>.
\<close>

definition thirty_minutes :: int where
  "thirty_minutes = 30 * 60 * 1000"

definition may_reinstall :: "ServiceWorkerMetadata \<Rightarrow> int \<Rightarrow> bool" where
  "may_reinstall m now =
     (reinstallCount m < 3 \<or> lastReinstall m = None \<or>
      (case lastReinstall m of None \<Rightarrow> False | Some l \<Rightarrow> l < now - thirty_minutes))"

definition next_count :: "ServiceWorkerMetadata \<Rightarrow> int \<Rightarrow> int" where
  "next_count m now =
     (case lastReinstall m of
        None \<Rightarrow> 1
      | Some l \<Rightarrow> if l \<noteq> 0 \<and> l > now - thirty_minutes then reinstallCount m + 1 else 1)"

definition repair :: "tick \<Rightarrow> session_storage \<Rightarrow> round_result \<times> session_storage" where
  "repair t st =
     (let metadata = getServiceWorkerMetadata st; now = now_at t
      in if may_reinstall metadata now
         then (Reinstall (reinstallServiceWorker (fault t)),
               saveServiceWorkerMetadata
                 (metadata\<lparr> reinstallCount := next_count metadata now,
                            lastReinstall := Some now \<rparr>) st)
         else (TooManyReinstalls,
               saveServiceWorkerMetadata
                 (push_error (''Too many reinstalls at '' @ iso_time t) metadata) st))"

text \<open>
  Lines 208-244, one round of the interval set up by \<open>setupKeepAlive\<close> (which sets
  none up in the StackBlitz preview, line 205): the ping, on its failure the health
  check, and on its failure the throttled repair. After a ping whose \<open>postMessage\<close>
  threw, the ping's timer is still running: it fires before the health check's own
  timer, set later, when the health check times out, and otherwise after the health
  check and the repair have written their part.
\<close>

definition keepAliveRound :: "tick \<Rightarrow> session_storage \<Rightarrow> round_result \<times> session_storage" where
  "keepAliveRound t st =
     (case pingServiceWorker t st of
        (pingSuccessful, st1) \<Rightarrow>
          if pingSuccessful then (Alive, st1)
          else
            (let timer_first = (ping t = PingThrows \<and> health t = HealthTimeout);
                 timer_last = (ping t = PingThrows \<and> health t \<noteq> HealthTimeout);
                 st2 = (if timer_first then record_ping_timeout t st1 else st1)
             in case (if checkServiceWorkerHealth t then (Alive, st2) else repair t st2) of
                  (r, st3) \<Rightarrow> (r, if timer_last then record_ping_timeout t st3 else st3)))"

text \<open>The rounds of a session in order, each result with the time of its round.\<close>

fun keepAlive :: "tick list \<Rightarrow> session_storage \<Rightarrow> (int \<times> round_result) list \<times> session_storage" where
  "keepAlive [] st = ([], st)"
| "keepAlive (t # ts) st =
     (case keepAliveRound t st of
        (r, st1) \<Rightarrow> (case keepAlive ts st1 of (rs, st2) \<Rightarrow> ((now_at t, r) # rs, st2)))"

fun is_reinstall :: "round_result \<Rightarrow> bool" where
  "is_reinstall (Reinstall acts) = True"
| "is_reinstall _ = False"

text \<open>The times of the rounds that called \<open>reinstallServiceWorker\<close>.\<close>

definition reinstall_times :: "(int \<times> round_result) list \<Rightarrow> int list" where
  "reinstall_times rs = map fst (filter (\<lambda>p. is_reinstall (snd p)) rs)"

text \<open>A round in which both the ping and the health check time out.\<close>

definition failing_round :: "int \<Rightarrow> tick" where
  "failing_round now =
     \<lparr> ping = PingTimeout, health = HealthTimeout, ping_at = now, reply_at = now,
       now_at = now, iso_time = ''t'', fault = NoFault \<rparr>"

definition fresh_session :: session_storage where
  "fresh_session = \<lparr> sw_metadata = None, writable = True \<rparr>"

text \<open>A session whose storage refuses every \<open>setItem\<close> (full, or disabled).\<close>

definition unwritable_session :: session_storage where
  "unwritable_session = \<lparr> sw_metadata = None, writable = False \<rparr>"

subsection \<open>The history of reinstalls\<close>

text \<open>
  For the proof of the throttle: \<open>h\<close> lists the times of the reinstalls so far,
  newest first. \<open>spaced h\<close>: of any four consecutive reinstalls, the first and the
  last are at least thirty minutes apart. \<open>chain n h\<close>: when the counter is \<open>n\<close>, the
  reinstall before the newest \<open>n\<close> is at least thirty minutes older than the oldest of
  them. \<open>throttle_inv\<close> ties the stored metadata to the history.
\<close>

fun spaced :: "int list \<Rightarrow> bool" where
  "spaced (a # b # c # d # rest) = (d + thirty_minutes \<le> a \<and> spaced (b # c # d # rest))"
| "spaced xs = True"

definition chain :: "int \<Rightarrow> int list \<Rightarrow> bool" where
  "chain n h =
     ((n = 1 \<longrightarrow> (case h of a # b # rest \<Rightarrow> b + thirty_minutes \<le> a | _ \<Rightarrow> True)) \<and>
      (n = 2 \<longrightarrow> (case h of a # b # c # rest \<Rightarrow> c + thirty_minutes \<le> b | _ \<Rightarrow> True)))"

definition throttle_inv :: "ServiceWorkerMetadata \<Rightarrow> int list \<Rightarrow> bool" where
  "throttle_inv m h =
     ((case h of
         [] \<Rightarrow> lastReinstall m = None
       | r # rest \<Rightarrow> lastReinstall m = Some r \<and> 1 \<le> reinstallCount m \<and> reinstallCount m \<le> 3
                    \<and> chain (reinstallCount m) h)
      \<and> sorted (rev h) \<and> (\<forall>x\<in>set h. 0 < x) \<and> spaced h)"

text \<open>Example rounds: four failures within a minute and a half, one more after 33 minutes.\<close>

definition example_ticks :: "tick list" where
  "example_ticks = [failing_round 1000, failing_round 31000, failing_round 61000,
                    failing_round 91000, failing_round 2000000]"

section \<open>The data hook (src/hooks/useData.ts, useData)\<close>

text \<open>
  What \<open>useData\<close> returns at a render: its three pieces of React state. They start as
  \<open>null\<close>, \<open>true\<close>, \<open>null\<close> (lines 18-20).
\<close>

record 'a useData_state =
  data :: "'a option"
  loading :: bool
  error :: "js_error option"

definition initial_state :: "'a useData_state" where
  "initial_state = \<lparr> data = None, loading = True, error = None \<rparr>"

text \<open>The module-level \<open>memoryCache\<close>: key to data and timestamp.\<close>

type_synonym 'a memoryCache = "string \<rightharpoonup> 'a \<times> string"

text \<open>
  \<open>fetchData\<close>, lines 24-68, run by the effect after the first render. The result is
  the state after each setter call, in order, and the memory cache at the end.
  \<open>getCachedData\<close> is imported from a module that is not among the sources: it is a
  parameter, as is the truthiness of a cached value (\<open>if (cachedData)\<close>). The third
  parameter is how the promise of \<open>fetcher()\<close> ends; \<open>isoString\<close> is the timestamp
  written with a cache entry. On a \<open>Pending\<close> fetcher the function never gets past
  its \<open>await\<close>.
\<close>

definition fetchData ::
  "('a \<Rightarrow> bool) \<Rightarrow> (string \<Rightarrow> 'a option) \<Rightarrow> string \<Rightarrow> 'a promise \<Rightarrow> string \<Rightarrow>
   'a useData_state \<times> 'a memoryCache \<Rightarrow> 'a useData_state list \<times> 'a memoryCache" where
  "fetchData is_truthy getCachedData cacheKey fetched isoString sc =
     (case sc of (s, memo) \<Rightarrow>
        (let s1 = s\<lparr> loading := True \<rparr>; s2 = s1\<lparr> error := None \<rparr>
         in case (case getCachedData cacheKey of
                    None \<Rightarrow> None
                  | Some c \<Rightarrow> if is_truthy c then Some c else None) of
              Some cachedData \<Rightarrow>
                (let s3 = s2\<lparr> data := Some cachedData \<rparr>; s4 = s3\<lparr> loading := False \<rparr>
                 in case fetched of
                      Fulfilled freshData \<Rightarrow>
                        (let s5 = s4\<lparr> data := Some freshData \<rparr>
                         in ([s1, s2, s3, s4, s5, s5\<lparr> loading := False \<rparr>],
                             memo(cacheKey \<mapsto> (freshData, isoString))))
                    | Rejected err \<Rightarrow> ([s1, s2, s3, s4, s4\<lparr> loading := False \<rparr>], memo)
                    | Pending \<Rightarrow> ([s1, s2, s3, s4], memo))
            | None \<Rightarrow>
                (case fetched of
                   Fulfilled freshData \<Rightarrow>
                     (let s3 = s2\<lparr> data := Some freshData \<rparr>
                      in ([s1, s2, s3, s3\<lparr> loading := False \<rparr>],
                          memo(cacheKey \<mapsto> (freshData, isoString))))
                 | Rejected err \<Rightarrow>
                     (let s3 = s2\<lparr> error := Some err \<rparr>
                      in ([s1, s2, s3, s3\<lparr> loading := False \<rparr>], memo))
                 | Pending \<Rightarrow> ([s1, s2], memo))))"

text \<open>
  The states of the hook from its first render on, for one run of the effect: the
  initial state, which the first render returns before any effect has run, then the
  states \<open>fetchData\<close> goes through. Every value a render of the hook returns is one
  of these, in this order.
\<close>

definition useData_states ::
  "('a \<Rightarrow> bool) \<Rightarrow> (string \<Rightarrow> 'a option) \<Rightarrow> string \<Rightarrow> 'a promise \<Rightarrow> string \<Rightarrow>
   'a memoryCache \<Rightarrow> 'a useData_state list" where
  "useData_states is_truthy getCachedData cacheKey fetched isoString memo =
     initial_state #
     fst (fetchData is_truthy getCachedData cacheKey fetched isoString (initial_state, memo))"

chapter \<open>Properties\<close>

section \<open>The pending operations queue\<close>

subsection \<open>One operation\<close>

lemma try_operation_other_keys:
  "try_operation stringify fetch k op (w, st) = (r, w', st') \<Longrightarrow> k' \<noteq> k \<Longrightarrow> st' k' = st k'"
  by (auto simp: try_operation_def split: prod.splits attempt.splits fetch_result.splits if_splits)

text \<open>
  The \<open>try\<close> block runs to its end exactly when the request got a 2xx response, and only
  then is the store touched.
\<close>

lemma try_operation_store:
  "try_operation stringify fetch k op (w, st) = ((thrown, a), w', st') \<Longrightarrow>
   (thrown = None \<longleftrightarrow> attempt_ok a) \<and>
   (attempt_ok a \<longrightarrow> get_operations st' k = filter (\<lambda>x. op_id x \<noteq> op_id op) (get_operations st k)) \<and>
   (\<not> attempt_ok a \<longrightarrow> st' = st) \<and>
   (\<forall>e. thrown = Some e \<longrightarrow> is_network_error e = attempt_stops a) \<and>
   perform_request stringify fetch op w = (a, w')"
  by (auto simp: try_operation_def get_operations_def is_network_error_def
      split: prod.splits attempt.splits fetch_result.splits if_splits)

subsection \<open>The walk\<close>


lemma walk_other_keys:
  "walk_operations stringify fetch k ops (w, st) = ((w', st'), tr) \<Longrightarrow> k' \<noteq> k \<Longrightarrow> st' k' = st k'"
proof (induction ops arbitrary: w st w' st' tr)
  case Nil
  then show ?case by simp
next
  case (Cons op ops)
  obtain thrown a w1 st1 where t: "try_operation stringify fetch k op (w, st) = ((thrown, a), w1, st1)"
    by (cases "try_operation stringify fetch k op (w, st)") auto
  have s1: "st1 k' = st k'" using try_operation_other_keys [OF t Cons.prems(2)] .
  show ?case
  proof (cases "\<exists>e. thrown = Some e \<and> is_network_error e")
    case True
    then have "st' = st1" using Cons.prems t by auto
    then show ?thesis using s1 by simp
  next
    case False
    obtain w2 st2 tr2 where r: "walk_operations stringify fetch k ops (w1, st1) = ((w2, st2), tr2)"
      by (cases "walk_operations stringify fetch k ops (w1, st1)") auto
    have "st' = st2" using Cons.prems t r False by (auto split: option.splits if_splits)
    then show ?thesis using Cons.IH [OF r Cons.prems(2)] s1 by simp
  qed
qed

text \<open>
  The trace is a prefix of the list walked, in order; no attempt but the last can be one
  that stops the walk, and a walk that ends before the end of the list ended on one.
\<close>

lemma walk_trace:
  "walk_operations stringify fetch k ops (w, st) = ((w', st'), tr) \<Longrightarrow>
   map fst tr = take (length tr) ops \<and> length tr \<le> length ops \<and>
   (\<forall>x\<in>set (butlast tr). \<not> attempt_stops (snd x)) \<and>
   (length tr < length ops \<longrightarrow> tr \<noteq> [] \<and> attempt_stops (snd (last tr)))"
proof (induction ops arbitrary: w st w' st' tr)
  case Nil
  then show ?case by simp
next
  case (Cons op ops)
  obtain thrown a w1 st1 where t: "try_operation stringify fetch k op (w, st) = ((thrown, a), w1, st1)"
    by (cases "try_operation stringify fetch k op (w, st)") auto
  note ts = try_operation_store [OF t]
  show ?case
  proof (cases "\<exists>e. thrown = Some e \<and> is_network_error e")
    case True
    then have "tr = [(op, a)]" using Cons.prems t by auto
    moreover have "attempt_stops a" using True ts by auto
    ultimately show ?thesis by simp
  next
    case False
    obtain w2 st2 tr2 where r: "walk_operations stringify fetch k ops (w1, st1) = ((w2, st2), tr2)"
      by (cases "walk_operations stringify fetch k ops (w1, st1)") auto
    have eq: "tr = (op, a) # tr2"
      using Cons.prems t r False by (auto split: option.splits if_splits)
    have ns: "\<not> attempt_stops a"
    proof (cases thrown)
      case None
      then have "attempt_ok a" using ts by simp
      then show ?thesis by (cases a rule: attempt_ok.cases) auto
    next
      case (Some e)
      then show ?thesis using False ts by auto
    qed
    note ih = Cons.IH [OF r]
    show ?thesis using ih eq ns by (auto simp: butlast_def split: if_splits)
  qed
qed

text \<open>
  An error that line 256 takes for a network error ends the walk on the spot: the
  attempt that met it is the last of the trace.
\<close>

lemma walk_stops_at_network_error:
  assumes "walk_operations stringify fetch k ops (w, st) = ((w', st'), tr)"
    and "i < length tr" and "attempt_stops (snd (tr ! i))"
  shows "Suc i = length tr"
proof (rule ccontr)
  assume "Suc i \<noteq> length tr"
  then have "i < length (butlast tr)" using assms(2) by simp
  then have "tr ! i \<in> set (butlast tr)" by (metis nth_butlast nth_mem)
  then show False using walk_trace [OF assms(1)] assms(3) by blast
qed


subsection \<open>A pass of executeOperation\<close>


lemmas queue_eval =
  executeOperation_def getStoreKey_def try_operation_def perform_request_def
  build_init_def method_of_def example_fetch_def example_op_def response_ok_def
  get_operations_def is_network_error_def queued_def op_A_def op_B_def op_C_def
  startsWith_def succeeded_ids_def


text \<open>
  C2. A fetch that fails for lack of connectivity rejects with a \<open>TypeError\<close>; in
  Chrome its message is \<open>Failed to fetch\<close>, which does not contain \<open>network\<close>. The
  test of line 256 is false for it and the walk goes on: on the queue A (ok),
  B (\<open>TypeError: Failed to fetch\<close>), C (ok) the operation C, after B, is requested
  and removed.
\<close>

theorem executeOperation_goes_on_after_failed_fetch:
  "executeOperation Inr
      (example_fetch (\<lambda>ep. if ep = ''/tasks/2'' then Threw (JsError True ''Failed to fetch'')
                            else Responded 200))
      Task ''u1'' (queued [op_A, op_B, op_C])
     = (queued [op_B],
        [(op_A, Fetched (Responded 200)),
         (op_B, Fetched (Threw (JsError True ''Failed to fetch''))),
         (op_C, Fetched (Responded 200))])"
  by (simp add: queue_eval)

section \<open>The durable store\<close>

subsection \<open>Objects, keys and stores\<close>

lemma get_prop_set_prop:
  "get_prop (set_prop obj name v) m = (if m = name then v else get_prop obj m)"
  by (induction obj name v rule: set_prop.induct) (auto simp: get_prop_def)

lemma get_prop_stamp:
  "name \<noteq> ''cached_at'' \<Longrightarrow> get_prop (stamp isoString item) name = get_prop item name"
  by (simp add: stamp_def get_prop_set_prop)

lemma key_of_stamp: "key_of (stamp isoString item) = key_of item"
  by (simp add: key_of_def get_prop_stamp)

lemma truthy_stamp: "isoString \<noteq> [] \<Longrightarrow> truthy (get_prop (stamp isoString item) ''cached_at'')"
  by (simp add: stamp_def get_prop_set_prop)

lemma find_upsert:
  "key_of obj = Some k \<Longrightarrow> find (\<lambda>x. key_of x = Some k) (upsert k obj xs) = Some obj"
  by (induction xs) (auto split: option.splits)

lemma map_of_set_store:
  "map_of (set_store db name s) m =
     (if m = name then (case map_of db name of None \<Rightarrow> None | Some t \<Rightarrow> Some s) else map_of db m)"
  by (induction db) (auto simp: set_store_def)

lemma store_put_valid:
  "key_of obj = Some k \<Longrightarrow>
   \<exists>s'. store_put s obj = Inr s' \<and> store_get s' k = Some obj"
  by (auto simp: store_put_def store_get_def find_upsert)

subsection \<open>Save, then read by id\<close>

text \<open>
  C3. Saving a single record \<open>r\<close> whose \<open>id\<close> is a valid key into an existing store
  \<open>storeName\<close>, then reading that id back, both calls meeting no fault (the open and
  the request succeed) and \<open>toISOString\<close> giving a non-empty string: the save is
  fulfilled and the read gives the record \<open>stamp (clock 0) r\<close>. That record has every
  property of \<open>r\<close> other than \<open>cached_at\<close> unchanged, and a truthy \<open>cached_at\<close>: the
  one \<open>r\<close> had if it was truthy, otherwise the time of the write.
\<close>

theorem save_then_getById:
  assumes "open_error env1 = None" and "request_error env1 0 = None"
    and "open_error env2 = None" and "request_error env2 0 = None"
    and "map_of db storeName = Some s"
    and "to_key (get_prop r ''id'') = Some k"
    and "clock 0 \<noteq> []"
  shows "fst (saveToIndexedDB env1 clock db storeName (Single r)) = Fulfilled ()
       \<and> getByIdFromIndexedDB env2 (snd (saveToIndexedDB env1 clock db storeName (Single r)))
            storeName (get_prop r ''id'') = Fulfilled (Some (stamp (clock 0) r))
       \<and> (\<forall>name. name \<noteq> ''cached_at'' \<longrightarrow> get_prop (stamp (clock 0) r) name = get_prop r name)
       \<and> truthy (get_prop (stamp (clock 0) r) ''cached_at'')
       \<and> get_prop (stamp (clock 0) r) ''cached_at''
            = (if truthy (get_prop r ''cached_at'') then get_prop r ''cached_at'' else JStr (clock 0))"
proof -
  have k: "key_of (stamp (clock 0) r) = Some k"
    using assms(6) by (simp add: key_of_stamp) (simp add: key_of_def)
  obtain s' where s': "store_put s (stamp (clock 0) r) = Inr s'" "store_get s' k = Some (stamp (clock 0) r)"
    using store_put_valid [OF k] by blast
  have sv: "saveToIndexedDB env1 clock db storeName (Single r) = (Fulfilled (), set_store db storeName s')"
    using assms s' by (simp add: saveToIndexedDB_def)
  have g: "getByIdFromIndexedDB env2 (set_store db storeName s') storeName (get_prop r ''id'')
             = Fulfilled (Some (stamp (clock 0) r))"
    using assms s' by (simp add: getByIdFromIndexedDB_def map_of_set_store)
  show ?thesis using sv g assms(7)
    by (simp add: get_prop_stamp truthy_stamp) (simp add: stamp_def get_prop_set_prop)
qed

theorem save_then_getById_witness:
  "open_error healthy = None \<and> request_error healthy 0 = None
   \<and> map_of example_db ''tasks'' \<noteq> None
   \<and> to_key (get_prop [(''id'', JStr ''t9''), (''name'', JStr ''Quiz'')] ''id'') = Some (KStr ''t9'')
   \<and> fst (saveToIndexedDB healthy (\<lambda>i. ''2024-01-01T05:00:00.000Z'') example_db ''tasks''
            (Single [(''id'', JStr ''t9''), (''name'', JStr ''Quiz'')])) = Fulfilled ()
   \<and> getByIdFromIndexedDB healthy
        (snd (saveToIndexedDB healthy (\<lambda>i. ''2024-01-01T05:00:00.000Z'') example_db ''tasks''
                (Single [(''id'', JStr ''t9''), (''name'', JStr ''Quiz'')])))
        ''tasks'' (JStr ''t9'')
      = Fulfilled (Some [(''id'', JStr ''t9''), (''name'', JStr ''Quiz''),
                         (''cached_at'', JStr ''2024-01-01T05:00:00.000Z'')])"
proof -
  have o: "open_error healthy = None" and q: "request_error healthy 0 = None"
    by (simp_all add: healthy_def)
  obtain s where m: "map_of example_db ''tasks'' = Some s"
    by (simp add: example_db_def)
  have k: "to_key (get_prop [(''id'', JStr ''t9''), (''name'', JStr ''Quiz'')] ''id'') = Some (KStr ''t9'')"
    by (simp add: get_prop_def)
  have c: "(\<lambda>i::nat. ''2024-01-01T05:00:00.000Z'') 0 \<noteq> []" by simp
  show ?thesis
    using save_then_getById [OF o q o q m k c] o q m k
    by (simp add: stamp_def get_prop_def)
qed

subsection \<open>Saving an array\<close>

lemma put_all_count:
  "put_all clock i s items = (None, n, s') \<Longrightarrow> n = i + length items"
proof (induction items arbitrary: i s)
  case Nil
  then show ?case by simp
next
  case (Cons item items)
  then obtain s1 where "store_put s (stamp (clock i) item) = Inr s1"
    and "put_all clock (Suc i) s1 items = (None, n, s')"
    by (auto split: sum.splits)
  then show ?case using Cons.IH [of "Suc i" s1] by simp
qed

lemma first_error_None: "first_error f ns = None \<longleftrightarrow> (\<forall>i\<in>set ns. f i = None)"
  by (induction ns) (auto split: option.splits)

text \<open>
  C10. With the database open and the store present, saving the empty array returns a
  promise that never settles. For a non-empty array the promise always settles, and it
  is fulfilled exactly when no \<open>put\<close> threw and none of the requests, one per item,
  failed; otherwise it is rejected.
\<close>

theorem save_array_settles:
  assumes "open_error env = None" and "map_of db storeName = Some s"
  shows "fst (saveToIndexedDB env clock db storeName (Many [])) = Pending
       \<and> (items \<noteq> [] \<longrightarrow>
            fst (saveToIndexedDB env clock db storeName (Many items)) \<noteq> Pending
          \<and> (fst (saveToIndexedDB env clock db storeName (Many items)) = Fulfilled ()
               \<longleftrightarrow> fst (put_all clock 0 s items) = None
                 \<and> (\<forall>i<length items. request_error env i = None)))"
proof -
  have e: "fst (saveToIndexedDB env clock db storeName (Many [])) = Pending"
    using assms by (simp add: saveToIndexedDB_def)
  have ne: "fst (saveToIndexedDB env clock db storeName (Many items)) \<noteq> Pending
          \<and> (fst (saveToIndexedDB env clock db storeName (Many items)) = Fulfilled ()
               \<longleftrightarrow> fst (put_all clock 0 s items) = None
                 \<and> (\<forall>i<length items. request_error env i = None))" if "items \<noteq> []"
  proof -
    obtain r n s' where p: "put_all clock 0 s items = (r, n, s')"
      by (cases "put_all clock 0 s items") auto
    show ?thesis
    proof (cases r)
      case None
      then have n: "n = length items" using put_all_count [of clock 0 s items n s'] p by simp
      have fe: "first_error (request_error env) [0..<n] = None
                  \<longleftrightarrow> (\<forall>i<length items. request_error env i = None)"
        using n by (auto simp: first_error_None)
      show ?thesis
      proof (cases "first_error (request_error env) [0..<n]")
        case None
        then show ?thesis using assms p \<open>r = None\<close> that n fe
          by (simp add: saveToIndexedDB_def)
      next
        case (Some e)
        then show ?thesis using assms p \<open>r = None\<close> that n fe
          by (simp add: saveToIndexedDB_def)
      qed
    next
      case (Some e)
      then show ?thesis using assms p by (simp add: saveToIndexedDB_def)
    qed
  qed
  show ?thesis using e ne by blast
qed


theorem save_array_settles_witness:
  "open_error healthy = None \<and> map_of example_db ''tasks'' \<noteq> None
   \<and> fst (saveToIndexedDB healthy (\<lambda>i. ''2024-01-01T05:00:00.000Z'') example_db ''tasks'' (Many []))
       = Pending
   \<and> fst (saveToIndexedDB healthy (\<lambda>i. ''2024-01-01T05:00:00.000Z'') example_db ''tasks''
            (Many [[(''id'', JStr ''t8'')], [(''id'', JStr ''t9'')]])) = Fulfilled ()
   \<and> fst (saveToIndexedDB healthy (\<lambda>i. ''2024-01-01T05:00:00.000Z'') example_db ''tasks''
            (Many [[(''id'', JStr ''t8'')], [(''id'', JNull)]])) = Rejected DataError"
proof -
  have o: "open_error healthy = None" by (simp add: healthy_def)
  obtain s where m: "map_of example_db ''tasks'' = Some s"
    by (simp add: example_db_def)
  have f: "fst (saveToIndexedDB healthy (\<lambda>i. ''2024-01-01T05:00:00.000Z'') example_db ''tasks''
            (Many [[(''id'', JStr ''t8'')], [(''id'', JStr ''t9'')]])) = Fulfilled ()"
    by (simp add: saveToIndexedDB_def healthy_def example_db_def store_put_def key_of_def
        get_prop_def stamp_def)
  have r: "fst (saveToIndexedDB healthy (\<lambda>i. ''2024-01-01T05:00:00.000Z'') example_db ''tasks''
            (Many [[(''id'', JStr ''t8'')], [(''id'', JNull)]])) = Rejected DataError"
    by (simp add: saveToIndexedDB_def healthy_def example_db_def store_put_def key_of_def
        get_prop_def stamp_def)
  show ?thesis
    using save_array_settles [OF o m, of "\<lambda>i. ''2024-01-01T05:00:00.000Z''" "[]"] o m f r
    by simp
qed

subsection \<open>Reading a whole store\<close>

lemma getAll_success:
  "open_error env = None \<Longrightarrow> map_of db storeName = Some s \<Longrightarrow> request_error env 0 = None \<Longrightarrow>
   getAllFromIndexedDB env db storeName = Fulfilled (records s)"
  by (simp add: getAllFromIndexedDB_def)

lemma getAll_open_failure:
  "open_error env = Some e \<Longrightarrow> getAllFromIndexedDB env db storeName = Fulfilled []"
  by (simp add: getAllFromIndexedDB_def)

text \<open>
  C5. A read request that fails reaches the caller as a rejection, not as an empty
  list: the request's error is passed to \<open>reject\<close>, and the promise is returned
  without \<open>await\<close>, out of reach of the \<open>catch\<close> block that returns \<open>[]\<close>. Here the
  \<open>getAll\<close> request on the \<open>tasks\<close> store fails with an \<open>UnknownError\<close>.
\<close>

theorem getAll_request_failure_rejects:
  "getAllFromIndexedDB
     \<lparr> open_error = None, request_error = (\<lambda>i. Some (JsError False ''UnknownError'')) \<rparr>
     example_db ''tasks''
   = Rejected (JsError False ''UnknownError'')"
  by (simp add: getAllFromIndexedDB_def example_db_def)

subsection \<open>The cleanup\<close>

lemma set_store_twice: "set_store (set_store db n a) n b = set_store db n b"
  by (induction db) (auto simp: set_store_def)

lemma map_fst_set_store: "map fst (set_store db n s) = map fst db"
  by (induction db) (auto simp: set_store_def)

lemma set_store_same:
  "distinct (map fst db) \<Longrightarrow> map_of db n = Some s \<Longrightarrow> set_store db n s = db"
proof (induction db)
  case Nil
  then show ?case by (simp add: set_store_def)
next
  case (Cons p db)
  show ?case
  proof (cases "fst p = n")
    case True
    then have "n \<notin> fst ` set db" using Cons.prems(1) by auto
    then have "set_store db n s = db"
      by (induction db) (auto simp: set_store_def)
    then show ?thesis using True Cons.prems(2) by (cases p) (auto simp: set_store_def)
  next
    case False
    then show ?thesis using Cons by (cases p) (auto simp: set_store_def)
  qed
qed

lemma delete_items_filter:
  assumes "\<forall>n i. open_error (delete_env env n i) = None \<and> request_error (delete_env env n i) 0 = None"
    and "map_of db n = Some s"
    and "\<forall>x\<in>set items. key_of x \<noteq> None"
    and "distinct (map fst db)"
  shows "delete_items env n items db
           = set_store db n (s\<lparr> records := filter (\<lambda>x. key_of x \<notin> key_of ` set items) (records s) \<rparr>)"
  using assms(2,3,4)
proof (induction items arbitrary: db s)
  case Nil
  have "set_store db n s = db" using set_store_same [OF Nil(3) Nil(1)] .
  then show ?case by simp
next
  case (Cons item items)
  obtain k where k: "to_key (get_prop item ''id'') = Some k" "key_of item = Some k"
    using Cons.prems(2) by (auto simp: key_of_def)
  let ?db1 = "set_store db n (store_delete s k)"
  have d: "snd (deleteFromIndexedDB (delete_env env n (get_prop item ''id'')) db n (get_prop item ''id'')) = ?db1"
    using assms(1) Cons.prems(1) k by (simp add: deleteFromIndexedDB_def)
  have m: "map_of ?db1 n = Some (store_delete s k)"
    using Cons.prems(1) by (simp add: map_of_set_store)
  have "delete_items env n (item # items) db = delete_items env n items ?db1"
    using d by simp
  also have "\<dots> = set_store ?db1 n ((store_delete s k)\<lparr> records :=
        filter (\<lambda>x. key_of x \<notin> key_of ` set items) (records (store_delete s k)) \<rparr>)"
    using Cons.IH [OF m] Cons.prems(2,3) by (simp add: map_fst_set_store)
  also have "\<dots> = set_store db n (s\<lparr> records := filter (\<lambda>x. key_of x \<notin> key_of ` set (item # items)) (records s) \<rparr>)"
    using k by (auto simp: set_store_twice store_delete_def intro!: arg_cong [where f = "set_store db n"] filter_cong)
  finally show ?case .
qed

lemma stale_keys:
  assumes "distinct (map key_of xs)"
  shows "filter (\<lambda>x. key_of x \<notin> key_of ` set (filter P xs)) xs = filter (\<lambda>x. \<not> P x) xs"
proof (rule filter_cong [OF refl])
  fix x assume x: "x \<in> set xs"
  have "inj_on key_of (set xs)" using assms by (simp add: distinct_map)
  then have "key_of x \<in> key_of ` set (filter P xs) \<longleftrightarrow> P x"
    using x by (auto simp: inj_on_def)
  then show "(key_of x \<notin> key_of ` set (filter P xs)) = (\<not> P x)" by simp
qed

lemma cleanup_store_without_stale:
  assumes "no_faults env" and "map_of db n = Some s" and "wf_store s" and "distinct (map fst db)"
  shows "cleanup_store env getTime now n db = set_store db n (without_stale getTime now s)"
proof -
  have v: "\<forall>x\<in>set (filter (is_stale getTime now) (records s)). key_of x \<noteq> None"
    using assms(3) by (auto simp: wf_store_def list_all_iff)
  have f: "\<forall>n i. open_error (delete_env env n i) = None \<and> request_error (delete_env env n i) 0 = None"
    using assms(1) by (simp add: no_faults_def)
  have "cleanup_store env getTime now n db
          = delete_items env n (filter (is_stale getTime now) (records s)) db"
    using assms(1,2) by (simp add: cleanup_store_def no_faults_def)
  also have "\<dots> = set_store db n (s\<lparr> records := filter (\<lambda>x. key_of x \<notin> key_of ` set (filter (is_stale getTime now) (records s))) (records s) \<rparr>)"
    using delete_items_filter [OF f assms(2) v assms(4)] .
  also have "\<dots> = set_store db n (without_stale getTime now s)"
    unfolding without_stale_def
    using stale_keys [of "records s" "is_stale getTime now"] assms(3)
    by (simp only: wf_store_def)
  finally show ?thesis .
qed

lemma wf_store_without_stale: "wf_store s \<Longrightarrow> wf_store (without_stale getTime now s)"
  by (auto simp: wf_store_def without_stale_def distinct_map_filter list_all_iff)

lemma cleanup_fold:
  assumes "no_faults env" and "wf_database db0" and "set ns \<subseteq> fst ` set db0"
    and "distinct ns" and "set ns \<inter> seen = {}"
  shows "fold (\<lambda>storeName d. if startsWith storeName ''pending'' then d
                              else cleanup_store env getTime now storeName d) ns
              (cleaned getTime now seen db0)
         = cleaned getTime now (seen \<union> set ns) db0"
  using assms(4,5,3)
proof (induction ns arbitrary: seen)
  case Nil
  then show ?case by simp
next
  case (Cons n ns)
  let ?d = "cleaned getTime now seen db0"
  obtain s where s: "map_of db0 n = Some s" "(n, s) \<in> set db0"
    using Cons.prems(3) assms(2)
    by (auto simp: wf_database_def)
  have ws: "wf_store s" using s(2) assms(2) by (auto simp: wf_database_def list_all_iff)
  have nd: "n \<notin> seen" using Cons.prems(2) by auto
  have md: "map_of ?d n = Some s"
    using s(1) nd by (induction db0) (auto simp: cleaned_def split: if_splits)
  have step: "(if startsWith n ''pending'' then ?d else cleanup_store env getTime now n ?d)
               = cleaned getTime now (insert n seen) db0"
  proof (cases "startsWith n ''pending''")
    case True
    then show ?thesis by (auto simp: cleaned_def)
  next
    case False
    have dd: "distinct (map fst ?d)"
      using assms(2) by (simp add: cleaned_def wf_database_def case_prod_unfold comp_def)
    have "cleanup_store env getTime now n ?d = set_store ?d n (without_stale getTime now s)"
      using cleanup_store_without_stale [OF assms(1) md ws dd] .
    also have "\<dots> = cleaned getTime now (insert n seen) db0"
      using assms(2) s(2) False
      by (auto simp: set_store_def cleaned_def wf_database_def dest: eq_key_imp_eq_value)
    finally show ?thesis using False by simp
  qed
  have "fold (\<lambda>storeName d. if startsWith storeName ''pending'' then d
                              else cleanup_store env getTime now storeName d) (n # ns) ?d
        = fold (\<lambda>storeName d. if startsWith storeName ''pending'' then d
                              else cleanup_store env getTime now storeName d) ns
             (cleaned getTime now (insert n seen) db0)"
    using step by simp
  also have "\<dots> = cleaned getTime now (insert n seen \<union> set ns) db0"
    using Cons.IH [of "insert n seen"] Cons.prems by auto
  finally show ?case by simp
qed

lemma cleanup_result:
  assumes "no_faults env" and "wf_database db"
  shows "cleanupStaleCacheData env getTime now db =
           (Fulfilled (),
            map (\<lambda>(n, s). (n, if startsWith n ''pending'' then s else without_stale getTime now s)) db)"
proof -
  have c0: "cleaned getTime now {} db = db" by (simp add: cleaned_def)
  have "fold (\<lambda>storeName d. if startsWith storeName ''pending'' then d
                              else cleanup_store env getTime now storeName d) (map fst db)
              (cleaned getTime now {} db)
         = cleaned getTime now ({} \<union> set (map fst db)) db"
    using cleanup_fold [OF assms, of "map fst db" "{}"] assms(2) by (simp add: wf_database_def)
  moreover have "cleaned getTime now ({} \<union> set (map fst db)) db
      = map (\<lambda>(n, s). (n, if startsWith n ''pending'' then s else without_stale getTime now s)) db"
    by (auto simp: cleaned_def) (metis fst_conv image_eqI)
  ultimately show ?thesis using assms(1) c0
    by (simp add: cleanupStaleCacheData_def no_faults_def)
qed
text \<open>
  C4. In a run of the cleanup without faults, on a well-formed database: every store
  whose name starts with \<open>pending\<close> is left as it was, and every other store keeps
  exactly its records that are not stale, in their order; nothing else changes. A record
  is stale exactly when its \<open>cached_at\<close> is truthy, parses to a time, and lies more
  than four hours (14400000 ms) before \<open>now\<close>; so a record without \<open>cached_at\<close> is
  never deleted.
\<close>

theorem cleanup_deletes_exactly_stale:
  assumes "no_faults env" and "wf_database db"
  shows "cleanupStaleCacheData env getTime now db =
           (Fulfilled (),
            map (\<lambda>(n, s). (n, if startsWith n ''pending'' then s
                               else s\<lparr> records := filter (\<lambda>x. \<not> is_stale getTime now x) (records s) \<rparr>))
                db)
       \<and> (\<forall>x. is_stale getTime now x \<longleftrightarrow>
              truthy (get_prop x ''cached_at'') \<and>
              (\<exists>t. getTime (get_prop x ''cached_at'') = Some t \<and> now - t > 14400000))"
proof -
  have a: "cleanupStaleCacheData env getTime now db =
           (Fulfilled (),
            map (\<lambda>(n, s). (n, if startsWith n ''pending'' then s
                               else s\<lparr> records := filter (\<lambda>x. \<not> is_stale getTime now x) (records s) \<rparr>))
                db)"
    using cleanup_result [OF assms, of getTime now] unfolding without_stale_def .
  have b: "\<forall>x. is_stale getTime now x \<longleftrightarrow>
              truthy (get_prop x ''cached_at'') \<and>
              (\<exists>t. getTime (get_prop x ''cached_at'') = Some t \<and> now - t > 14400000)"
    by (auto simp: is_stale_def CACHE_EXPIRATION_def split: option.splits)
  show ?thesis using a b by (rule conjI)
qed

theorem cleanup_deletes_exactly_stale_witness:
  "no_faults healthy_cleanup \<and> wf_database example_db
   \<and> cleanupStaleCacheData healthy_cleanup example_getTime example_now example_db =
       (Fulfilled (),
        [(''pendingTaskOperations'',
          \<lparr> autoIncrement = True, keyGenerator = 2,
            records = [[(''id'', JNum 1), (''cached_at'', JStr ''2024-01-01T00:00:00.000Z'')]] \<rparr>),
         (''tasks'',
          \<lparr> autoIncrement = False, keyGenerator = 1,
            records =
              [[(''id'', JStr ''t2''), (''cached_at'', JStr ''2024-01-01T04:00:00.000Z'')],
               [(''id'', JStr ''t3''), (''name'', JStr ''Essay'')]] \<rparr>)])"
proof -
  have f: "no_faults healthy_cleanup"
    by (simp add: no_faults_def healthy_cleanup_def healthy_def)
  have w: "wf_database example_db"
    by (simp add: wf_database_def wf_store_def example_db_def key_of_def get_prop_def)
  have e: "map (\<lambda>(n, s). (n, if startsWith n ''pending'' then s
                               else s\<lparr> records := filter (\<lambda>x. \<not> is_stale example_getTime example_now x) (records s) \<rparr>))
                example_db
          = [(''pendingTaskOperations'',
          \<lparr> autoIncrement = True, keyGenerator = 2,
            records = [[(''id'', JNum 1), (''cached_at'', JStr ''2024-01-01T00:00:00.000Z'')]] \<rparr>),
         (''tasks'',
          \<lparr> autoIncrement = False, keyGenerator = 1,
            records =
              [[(''id'', JStr ''t2''), (''cached_at'', JStr ''2024-01-01T04:00:00.000Z'')],
               [(''id'', JStr ''t3''), (''name'', JStr ''Essay'')]] \<rparr>)]"
    by (simp add: example_db_def startsWith_def is_stale_def get_prop_def example_getTime_def
        example_now_def CACHE_EXPIRATION_def)
  show ?thesis
    using cleanup_deletes_exactly_stale [OF f w, of example_getTime example_now] f w e
    by simp
qed

section \<open>The network cache controller\<close>

subsection \<open>activate\<close>

lemma fold_delete:
  "fold (\<lambda>key d. if P key then caches_delete key d else d) ks cs
     = filter (\<lambda>p. \<not> (P (fst p) \<and> fst p \<in> set ks)) cs"
proof (induction ks arbitrary: cs)
  case Nil
  then show ?case by simp
next
  case (Cons k ks)
  show ?case
    by (cases "P k") (auto simp: Cons.IH caches_delete_def intro!: filter_cong)
qed

text \<open>
  C6. Whatever caches exist, activation leaves exactly those named by the current static
  or the current dynamic cache name, in their order and with their contents; every
  other cache is deleted.
\<close>

theorem activate_keeps_current:
  "activate cs = filter (\<lambda>p. fst p = STATIC_CACHE_NAME \<or> fst p = DYNAMIC_CACHE_NAME) cs"
  unfolding activate_def caches_keys_def
  by (auto simp: fold_delete intro!: filter_cong)

theorem activate_keeps_current_witness:
  "activate [(''nesttask-v1'', []), (''nesttask-static-v1'', [(''https://nesttask.app/'', offline_page)]),
             (''nesttask-static-v2'', [(''https://nesttask.app/offline.html'', offline_page)]),
             (''nesttask-dynamic-v2'', [])]
   = [(''nesttask-static-v2'', [(''https://nesttask.app/offline.html'', offline_page)]),
      (''nesttask-dynamic-v2'', [])]"
  using activate_keeps_current
    [of "[(''nesttask-v1'', []), (''nesttask-static-v1'', [(''https://nesttask.app/'', offline_page)]),
          (''nesttask-static-v2'', [(''https://nesttask.app/offline.html'', offline_page)]),
          (''nesttask-dynamic-v2'', [])]"]
  by (simp add: STATIC_CACHE_NAME_def DYNAMIC_CACHE_NAME_def)

subsection \<open>install and the offline page\<close>

lemma caches_match_Some:
  "caches_match cs req \<noteq> None \<longleftrightarrow> (\<exists>p\<in>set cs. cache_match (snd p) req \<noteq> None)"
  by (induction cs req rule: caches_match.induct) (auto split: option.splits)

lemma cache_put_has: "map_of (cache_put c u r) u = Some r"
  by (induction c u r rule: cache_put.induct) auto

lemma cache_put_keeps: "map_of c v \<noteq> None \<Longrightarrow> map_of (cache_put c u r) v \<noteq> None"
  by (induction c u r rule: cache_put.induct) auto

lemma caches_open_has: "\<exists>c. (name, c) \<in> set (caches_open name cs)"
  by (auto simp: caches_open_def)

lemma caches_open_keeps: "holds cs name u \<Longrightarrow> holds (caches_open name' cs) name u"
  by (auto simp: caches_open_def holds_def)

lemma caches_put_holds:
  "request_method req = ''GET'' \<Longrightarrow> holds (caches_put name req r cs) name (cache_key req)"
proof -
  assume g: "request_method req = ''GET''"
  obtain c where c: "(name, c) \<in> set (caches_open name cs)" using caches_open_has by blast
  then have "(name, cache_put c (cache_key req) r) \<in> set (caches_put name req r cs)"
    using g by (force simp: caches_put_def)
  then show ?thesis using cache_put_has unfolding holds_def by fastforce
qed

lemma caches_put_keeps:
  "holds cs name u \<Longrightarrow> holds (caches_put name' req r cs) name u"
proof -
  assume "holds cs name u"
  then have "holds (caches_open name' cs) name u" by (rule caches_open_keeps)
  then obtain c where c: "(name, c) \<in> set (caches_open name' cs)" "map_of c u \<noteq> None"
    by (auto simp: holds_def)
  show ?thesis
  proof (cases "request_method req = ''GET'' \<and> name = name'")
    case True
    then have "(name, cache_put c (cache_key req) r) \<in> set (caches_put name' req r cs)"
      using c(1) by (force simp: caches_put_def)
    then show ?thesis using cache_put_keeps [OF c(2)] unfolding holds_def by blast
  next
    case False
    then have "(name, c) \<in> set (caches_put name' req r cs)"
      using c(1) by (force simp: caches_put_def)
    then show ?thesis using c(2) unfolding holds_def by blast
  qed
qed

lemma fold_put_holds:
  "(req, r) \<in> set rs \<or> holds cs name (cache_key req) \<Longrightarrow>
   \<forall>p\<in>set rs. request_method (fst p) = ''GET'' \<Longrightarrow>
   holds (fold (\<lambda>(q, r) d. caches_put name q r d) rs cs) name (cache_key req)"
proof (induction rs arbitrary: cs)
  case Nil
  then show ?case by simp
next
  case (Cons p rs)
  obtain q r' where p: "p = (q, r')" by (cases p)
  have "(req, r) \<in> set rs \<or> holds (caches_put name q r' cs) name (cache_key req)"
    using Cons.prems caches_put_holds [of q name r' cs]
      caches_put_keeps [of cs name "cache_key req" name q r'] p
    by auto
  then show ?case using Cons.IH [of "caches_put name q r' cs"] Cons.prems(2) p by simp
qed

lemma fetch_all_GET:
  "fetch_all origin net ps = Some rs \<Longrightarrow> \<forall>x\<in>set rs. request_method (fst x) = ''GET''"
  by (induction ps arbitrary: rs) (auto split: option.splits if_splits simp: url_request_def)

lemma fetch_all_has:
  "fetch_all origin net ps = Some rs \<Longrightarrow> p \<in> set ps \<Longrightarrow>
   \<exists>r. (url_request origin p, r) \<in> set rs"
  by (induction ps arbitrary: rs) (auto split: option.splits if_splits)

lemma install_precaches_offline_page:
  assumes "install origin net cs0 = (True, cs)"
  shows "caches_match cs (url_request origin OFFLINE_URL) \<noteq> None"
proof -
  obtain rs where rs: "fetch_all origin net PRECACHE_ASSETS = Some rs"
    and cs: "cs = fold (\<lambda>(req, r) d. caches_put STATIC_CACHE_NAME req r d) rs (caches_open STATIC_CACHE_NAME cs0)"
    using assms by (auto simp: install_def split: option.splits)
  have "OFFLINE_URL \<in> set PRECACHE_ASSETS" by (simp add: OFFLINE_URL_def PRECACHE_ASSETS_def)
  from fetch_all_has [OF rs this] obtain r where r: "(url_request origin OFFLINE_URL, r) \<in> set rs"
    by blast
  have g: "\<forall>x\<in>set rs. request_method (fst x) = ''GET''" using fetch_all_GET [OF rs] .
  have "holds cs STATIC_CACHE_NAME (cache_key (url_request origin OFFLINE_URL))"
    unfolding cs using fold_put_holds [of "url_request origin OFFLINE_URL" r rs _ STATIC_CACHE_NAME] r g
    by blast
  then obtain c where "(STATIC_CACHE_NAME, c) \<in> set cs"
    and "cache_match c (url_request origin OFFLINE_URL) \<noteq> None"
    by (auto simp: holds_def cache_match_def url_request_def)
  then have "\<exists>p\<in>set cs. cache_match (snd p) (url_request origin OFFLINE_URL) \<noteq> None"
    by force
  then show ?thesis by (simp only: caches_match_Some)
qed

subsection \<open>Navigations while offline\<close>

text \<open>
  C7, as amended. A navigation request that passes the guard of lines 53-57 (its URL
  starts with the worker's origin and contains neither \<open>_vercel/insights\<close> nor
  \<open>/api/\<close>), has no cached match and whose fetch fails, is answered with what
  \<open>caches.match('/offline.html')\<close> gives. With the caches a successful install has
  left, that is a response: the precached offline page. And a request of any mode
  whose URL contains \<open>_vercel/insights\<close> or \<open>/api/\<close> is not intercepted: the
  listener returns without responding and leaves the caches as they are.
\<close>

theorem navigation_offline_fallback:
  assumes "startsWith (url req) origin"
    and "\<not> str_includes (url req) ''_vercel/insights''" and "\<not> str_includes (url req) ''/api/''"
    and "mode req = ''navigate''"
    and "caches_match cs req = None" and "net req = None"
  shows "fetch_listener origin net req cs
           = (RespondWith (caches_match cs (url_request origin OFFLINE_URL)), cs)
       \<and> (\<forall>net0 cs0. install origin net0 cs0 = (True, cs) \<longrightarrow>
            (\<exists>page. fetch_listener origin net req cs = (RespondWith (Some page), cs)))
       \<and> (\<forall>other. str_includes (url other) ''_vercel/insights'' \<or> str_includes (url other) ''/api/''
              \<longrightarrow> fetch_listener origin net other cs = (NotIntercepted, cs))"
proof -
  have a: "fetch_listener origin net req cs
           = (RespondWith (caches_match cs (url_request origin OFFLINE_URL)), cs)"
    using assms by (simp add: fetch_listener_def)
  have b: "\<forall>net0 cs0. install origin net0 cs0 = (True, cs) \<longrightarrow>
            (\<exists>page. fetch_listener origin net req cs = (RespondWith (Some page), cs))"
    using a install_precaches_offline_page by fastforce
  have c: "\<forall>other. str_includes (url other) ''_vercel/insights'' \<or> str_includes (url other) ''/api/''
              \<longrightarrow> fetch_listener origin net other cs = (NotIntercepted, cs)"
    by (simp add: fetch_listener_def)
  show ?thesis using a b c by blast
qed

lemmas worker_eval =
  fetch_listener_def startsWith_def example_origin_def installed_caches_def
  cache_match_def offline_def install_def PRECACHE_ASSETS_def url_request_def online_def
  response_ok_def offline_page_def caches_open_def caches_put_def STATIC_CACHE_NAME_def
  OFFLINE_URL_def cache_key_def strip_fragment_def

theorem navigation_offline_fallback_witness:
  "install example_origin online [] = (True, installed_caches)
   \<and> fetch_listener example_origin offline
        \<lparr> url = ''https://nesttask.app/upcoming'', mode = ''navigate'', request_method = ''GET'' \<rparr>
        installed_caches
      = (RespondWith (Some offline_page), installed_caches)"
proof -
  let ?req = "\<lparr> url = ''https://nesttask.app/upcoming'', mode = ''navigate'', request_method = ''GET'' \<rparr>"
  have 1: "startsWith (url ?req) example_origin" by (simp add: worker_eval)
  have 2: "\<not> str_includes (url ?req) ''_vercel/insights''" by (simp add: worker_eval)
  have 3: "\<not> str_includes (url ?req) ''/api/''" by (simp add: worker_eval)
  have 4: "mode ?req = ''navigate''" by simp
  have 5: "caches_match installed_caches ?req = None" by (simp add: worker_eval)
  have 6: "offline ?req = None" by (simp add: worker_eval)
  have i: "install example_origin online [] = (True, installed_caches)" by (simp add: worker_eval)
  have m: "caches_match installed_caches (url_request example_origin OFFLINE_URL) = Some offline_page"
    by (simp add: worker_eval)
  show ?thesis
    using navigation_offline_fallback
            [where req = ?req and origin = example_origin and cs = installed_caches
               and net = offline, OF 1 2 3 4 5 6] i m
    by simp
qed

text \<open>
  The fragment of a URL takes no part in a match: offline, a navigation to
  \<open>https://nesttask.app/#top\<close> is served the precached root document.
\<close>

lemma fragment_navigation_served_from_cache:
  "fetch_listener example_origin offline
     \<lparr> url = ''https://nesttask.app/#top'', mode = ''navigate'', request_method = ''GET'' \<rparr>
     installed_caches
   = (RespondWith (Some \<lparr> resp_status = 200, content = ''NestTask'' \<rparr>), installed_caches)"
  by (simp add: worker_eval)

text \<open>
  The claim as it stands fails for a same-origin navigation to an API path: the
  listener returns at line 56 without responding, offline page or not.
\<close>

theorem api_navigation_not_intercepted:
  "startsWith (url \<lparr> url = ''https://nesttask.app/api/report'', mode = ''navigate'', request_method = ''GET'' \<rparr>) example_origin
   \<and> caches_match installed_caches \<lparr> url = ''https://nesttask.app/api/report'', mode = ''navigate'', request_method = ''GET'' \<rparr> = None
   \<and> offline \<lparr> url = ''https://nesttask.app/api/report'', mode = ''navigate'', request_method = ''GET'' \<rparr> = None
   \<and> install example_origin online [] = (True, installed_caches)
   \<and> caches_match installed_caches (url_request example_origin OFFLINE_URL) = Some offline_page
   \<and> fetch_listener example_origin offline
        \<lparr> url = ''https://nesttask.app/api/report'', mode = ''navigate'', request_method = ''GET'' \<rparr>
        installed_caches = (NotIntercepted, installed_caches)"
  by (simp add: worker_eval)

section \<open>The lifecycle supervisor\<close>

subsection \<open>Metadata and rounds\<close>

lemma get_save:
  "writable st \<Longrightarrow> getServiceWorkerMetadata (saveServiceWorkerMetadata m st) = m"
  by (simp add: getServiceWorkerMetadata_def saveServiceWorkerMetadata_def)

lemma writable_save: "writable (saveServiceWorkerMetadata m st) = writable st"
  by (simp add: saveServiceWorkerMetadata_def)

lemma record_ping_timeout_keeps:
  assumes "writable st"
  shows "writable (record_ping_timeout t st)
       \<and> reinstallCount (getServiceWorkerMetadata (record_ping_timeout t st))
           = reinstallCount (getServiceWorkerMetadata st)
       \<and> lastReinstall (getServiceWorkerMetadata (record_ping_timeout t st))
           = lastReinstall (getServiceWorkerMetadata st)"
  using assms
  by (simp add: record_ping_timeout_def get_save writable_save push_error_def Let_def)

lemma ping_keeps:
  assumes "pingServiceWorker t st = (b, st1)" and "writable st"
  shows "writable st1
       \<and> reinstallCount (getServiceWorkerMetadata st1) = reinstallCount (getServiceWorkerMetadata st)
       \<and> lastReinstall (getServiceWorkerMetadata st1) = lastReinstall (getServiceWorkerMetadata st)"
  using assms
  by (auto simp: pingServiceWorker_def Let_def get_save writable_save push_error_def
      record_ping_timeout_def split: ping_outcome.splits if_splits)

lemma repair_result:
  assumes "writable st"
  shows "repair t st =
     (if may_reinstall (getServiceWorkerMetadata st) (now_at t)
      then (Reinstall (reinstallServiceWorker (fault t)),
            saveServiceWorkerMetadata
              ((getServiceWorkerMetadata st)\<lparr> reinstallCount := next_count (getServiceWorkerMetadata st) (now_at t),
                                              lastReinstall := Some (now_at t) \<rparr>) st)
      else (TooManyReinstalls,
            saveServiceWorkerMetadata
              (push_error (''Too many reinstalls at '' @ iso_time t) (getServiceWorkerMetadata st)) st))"
  by (simp add: repair_def Let_def)

lemma spaced_tail: "spaced (a # xs) \<Longrightarrow> spaced xs"
  by (induction xs rule: spaced.induct) auto

lemma inv_after_reinstall:
  assumes inv: "throttle_inv m h" and may: "may_reinstall m n" and pos: "0 < n"
    and later: "\<forall>x\<in>set h. x \<le> n"
  shows "throttle_inv (m\<lparr> reinstallCount := next_count m n, lastReinstall := Some n \<rparr>) (n # h)"
proof (cases h)
  case Nil
  then show ?thesis using inv pos by (simp add: throttle_inv_def next_count_def chain_def)
next
  case (Cons a rest)
  then have m: "lastReinstall m = Some a" "1 \<le> reinstallCount m" "reinstallCount m \<le> 3"
    "chain (reinstallCount m) (a # rest)" "sorted (rev (a # rest))" "0 < a" "spaced (a # rest)"
    "\<forall>x\<in>set rest. 0 < x" "a \<le> n" "\<forall>x\<in>set rest. x \<le> n"
    using inv later by (auto simp: throttle_inv_def)
  have srt: "sorted (rev (n # a # rest))"
    using m(5,9,10) by (auto simp: sorted_append)
  have desc: "\<forall>x\<in>set rest. x \<le> a" using m(5) by (auto simp: sorted_append)
  show ?thesis
  proof (cases "a > n - thirty_minutes")
    case True
    then have c: "reinstallCount m < 3" using may m(1) by (auto simp: may_reinstall_def)
    have nc: "next_count m n = reinstallCount m + 1"
      using True m(1,6) by (simp add: next_count_def)
    have ch: "chain (reinstallCount m + 1) (n # a # rest)"
      using m(2,4) c by (auto simp: chain_def split: list.splits)
    have sp: "spaced (n # a # rest)"
    proof (cases rest)
      case Nil
      then show ?thesis by simp
    next
      case (Cons b rest2)
      note r1 = this
      show ?thesis
      proof (cases rest2)
        case Nil
        then show ?thesis using r1 by simp
      next
        case (Cons c' rest3)
        have "c' \<le> b" "b \<le> a" using m(5) r1 Cons by (auto simp: sorted_append)
        moreover have "b + thirty_minutes \<le> a \<or> c' + thirty_minutes \<le> b"
          using m(2,4) c r1 Cons by (auto simp: chain_def)
        ultimately have "c' + thirty_minutes \<le> n" using m(9) by linarith
        then show ?thesis using m(7) r1 Cons by simp
      qed
    qed
    show ?thesis using nc ch sp srt m c pos Cons
      by (simp add: throttle_inv_def)
  next
    case False
    then have nc: "next_count m n = 1" using m(1) by (simp add: next_count_def)
    have an: "a + thirty_minutes \<le> n" using False by simp
    have ch: "chain 1 (n # a # rest)" using an by (simp add: chain_def)
    have sp: "spaced (n # a # rest)"
    proof (cases rest)
      case Nil
      then show ?thesis by simp
    next
      case (Cons b rest2)
      note r1 = this
      show ?thesis
      proof (cases rest2)
        case Nil
        then show ?thesis using r1 by simp
      next
        case (Cons c' rest3)
        have "c' \<le> a" using desc r1 Cons by simp
        then have "c' + thirty_minutes \<le> n" using an by linarith
        then show ?thesis using m(7) r1 Cons by simp
      qed
    qed
    show ?thesis using nc ch sp srt m pos Cons
      by (simp add: throttle_inv_def)
  qed
qed

lemma throttle_inv_cong:
  "throttle_inv m h \<Longrightarrow> reinstallCount m' = reinstallCount m \<Longrightarrow>
   lastReinstall m' = lastReinstall m \<Longrightarrow> throttle_inv m' h"
  by (simp add: throttle_inv_def split: list.splits)

text \<open>
  The shape of a round: the ping and the timer leave the counter and the time of the
  last reinstall alone; in between, either nothing happens or the repair runs.
\<close>

lemma round_shape:
  assumes "keepAliveRound t st = (r, st1)" and "writable st"
  shows "\<exists>sa sb. writable sa
           \<and> reinstallCount (getServiceWorkerMetadata sa) = reinstallCount (getServiceWorkerMetadata st)
           \<and> lastReinstall (getServiceWorkerMetadata sa) = lastReinstall (getServiceWorkerMetadata st)
           \<and> (r, sb) = (if fst (pingServiceWorker t st) \<or> checkServiceWorkerHealth t
                        then (Alive, sa) else repair t sa)
           \<and> (st1 = sb \<or> st1 = record_ping_timeout t sb)"
proof -
  obtain b st0 where p: "pingServiceWorker t st = (b, st0)"
    by (cases "pingServiceWorker t st") auto
  note k = ping_keeps [OF p assms(2)]
  show ?thesis
  proof (cases b)
    case True
    then have "r = Alive" "st1 = st0" using assms(1) p by (auto simp: keepAliveRound_def)
    then show ?thesis using k p True by auto
  next
    case False
    define sa where "sa = (if ping t = PingThrows \<and> health t = HealthTimeout
                           then record_ping_timeout t st0 else st0)"
    obtain r' sb where rs: "(if checkServiceWorkerHealth t then (Alive, sa) else repair t sa) = (r', sb)"
      by (cases "if checkServiceWorkerHealth t then (Alive, sa) else repair t sa") auto
    have ka: "writable sa"
      "reinstallCount (getServiceWorkerMetadata sa) = reinstallCount (getServiceWorkerMetadata st)"
      "lastReinstall (getServiceWorkerMetadata sa) = lastReinstall (getServiceWorkerMetadata st)"
      using k record_ping_timeout_keeps [of st0 t] by (auto simp: sa_def)
    have "r = r'" and "st1 = sb \<or> st1 = record_ping_timeout t sb"
      using assms(1) p False rs by (auto simp: keepAliveRound_def Let_def sa_def split: if_splits)
    then show ?thesis using ka rs p False by auto
  qed
qed

lemma round_inv:
  assumes "keepAliveRound t st = (r, st1)" and "writable st"
    and "throttle_inv (getServiceWorkerMetadata st) h"
    and "0 < now_at t" and "\<forall>x\<in>set h. x \<le> now_at t"
  shows "writable st1 \<and>
         throttle_inv (getServiceWorkerMetadata st1) (if is_reinstall r then now_at t # h else h)"
proof -
  obtain sa sb where sa: "writable sa"
      "reinstallCount (getServiceWorkerMetadata sa) = reinstallCount (getServiceWorkerMetadata st)"
      "lastReinstall (getServiceWorkerMetadata sa) = lastReinstall (getServiceWorkerMetadata st)"
    and rs: "(r, sb) = (if fst (pingServiceWorker t st) \<or> checkServiceWorkerHealth t
                        then (Alive, sa) else repair t sa)"
    and s1: "st1 = sb \<or> st1 = record_ping_timeout t sb"
    using round_shape [OF assms(1,2)] by blast
  have i0: "throttle_inv (getServiceWorkerMetadata sa) h"
    using throttle_inv_cong [OF assms(3) sa(2,3)] .
  have sb: "writable sb \<and>
         throttle_inv (getServiceWorkerMetadata sb) (if is_reinstall r then now_at t # h else h)"
  proof (cases "fst (pingServiceWorker t st) \<or> checkServiceWorkerHealth t")
    case True
    then have "r = Alive" "sb = sa" using rs by auto
    then show ?thesis using sa i0 by simp
  next
    case False
    then have rp: "repair t sa = (r, sb)" using rs by auto
    show ?thesis
    proof (cases "may_reinstall (getServiceWorkerMetadata sa) (now_at t)")
      case True
      then have "r = Reinstall (reinstallServiceWorker (fault t))"
        and "sb = saveServiceWorkerMetadata
              ((getServiceWorkerMetadata sa)\<lparr> reinstallCount := next_count (getServiceWorkerMetadata sa) (now_at t),
                                              lastReinstall := Some (now_at t) \<rparr>) sa"
        using rp sa(1) by (simp_all add: repair_result)
      then show ?thesis
        using inv_after_reinstall [OF i0 True assms(4,5)] sa(1)
        by (simp add: get_save writable_save)
    next
      case False
      then have "r = TooManyReinstalls"
        and "sb = saveServiceWorkerMetadata
              (push_error (''Too many reinstalls at '' @ iso_time t) (getServiceWorkerMetadata sa)) sa"
        using rp sa(1) by (simp_all add: repair_result)
      then show ?thesis using i0 sa(1)
        by (simp add: get_save writable_save throttle_inv_def push_error_def Let_def
            split: list.splits)
    qed
  qed
  show ?thesis
  proof (cases "st1 = sb")
    case True
    then show ?thesis using sb by simp
  next
    case False
    then have e: "st1 = record_ping_timeout t sb" using s1 by simp
    show ?thesis
      using sb record_ping_timeout_keeps [of sb t] throttle_inv_cong unfolding e by blast
  qed
qed

lemma keepAlive_inv:
  assumes "keepAlive ticks st = (rs, st')" and "writable st"
    and "throttle_inv (getServiceWorkerMetadata st) h"
    and "sorted (map now_at ticks)" and "\<forall>t\<in>set ticks. 0 < now_at t"
    and "\<forall>x\<in>set h. \<forall>t\<in>set ticks. x \<le> now_at t"
  shows "throttle_inv (getServiceWorkerMetadata st') (rev (reinstall_times rs) @ h)"
  using assms
proof (induction ticks arbitrary: st h rs)
  case Nil
  then show ?case by (simp add: reinstall_times_def)
next
  case (Cons t ticks)
  obtain r st1 where r: "keepAliveRound t st = (r, st1)" by (cases "keepAliveRound t st") auto
  obtain rs1 where rs1: "keepAlive ticks st1 = (rs1, st')" and rs: "rs = (now_at t, r) # rs1"
    using Cons.prems(1) r by (auto split: prod.splits)
  let ?h1 = "if is_reinstall r then now_at t # h else h"
  have ri: "writable st1" "throttle_inv (getServiceWorkerMetadata st1) ?h1"
    using round_inv [OF r Cons.prems(2,3)] Cons.prems(5,6) by auto
  have later: "\<forall>x\<in>set ?h1. \<forall>t'\<in>set ticks. x \<le> now_at t'"
    using Cons.prems(4,6) by auto
  have "throttle_inv (getServiceWorkerMetadata st') (rev (reinstall_times rs1) @ ?h1)"
    using Cons.IH [OF rs1 ri] Cons.prems(4,5) later by simp
  then show ?case using rs by (cases "is_reinstall r") (simp_all add: reinstall_times_def)
qed

lemma window_bound:
  assumes "sorted (rev h)" and "spaced h"
  shows "length (filter (\<lambda>x. t \<le> x \<and> x < t + thirty_minutes) h) \<le> 3"
  using assms
proof (induction h)
  case Nil
  then show ?case by simp
next
  case (Cons a rest)
  have ih: "length (filter (\<lambda>x. t \<le> x \<and> x < t + thirty_minutes) rest) \<le> 3"
    using Cons by (auto simp: sorted_append dest: spaced_tail)
  show ?case
  proof (cases "t \<le> a \<and> a < t + thirty_minutes")
    case False
    then show ?thesis using ih by auto
  next
    case True
    have "length (filter (\<lambda>x. t \<le> x \<and> x < t + thirty_minutes) rest) \<le> 2"
    proof (cases rest)
      case Nil
      then show ?thesis by simp
    next
      case (Cons b r2)
      note r1 = this
      show ?thesis
      proof (cases r2)
        case Nil
        then show ?thesis using r1 by simp
      next
        case (Cons c r3)
        note r2 = this
        show ?thesis
        proof (cases r3)
          case Nil
          then show ?thesis using r1 r2 by simp
        next
          case (Cons d r4)
          have "d + thirty_minutes \<le> a" using Cons.prems(2) r1 r2 Cons by simp
          then have dt: "d < t" using True by linarith
          have "\<forall>x\<in>set r4. x \<le> d" using Cons.prems(1) r1 r2 Cons by (auto simp: sorted_append)
          then have "filter (\<lambda>x. t \<le> x \<and> x < t + thirty_minutes) (d # r4) = []"
            using dt by (auto simp: filter_empty_conv)
          then show ?thesis using r1 r2 Cons by simp
        qed
      qed
    qed
    then show ?thesis using True by simp
  qed
qed


lemma fresh_inv: "throttle_inv (getServiceWorkerMetadata fresh_session) []"
  by (simp add: throttle_inv_def getServiceWorkerMetadata_def fresh_session_def default_metadata_def)

lemmas supervisor_eval =
  keepAliveRound_def pingServiceWorker_def checkServiceWorkerHealth_def repair_def
  failing_round_def fresh_session_def getServiceWorkerMetadata_def saveServiceWorkerMetadata_def
  default_metadata_def push_error_def may_reinstall_def next_count_def thirty_minutes_def
  reinstallServiceWorker_def record_ping_timeout_def Let_def

lemma four_failures:
  assumes "0 < t1" "t1 \<le> t2" "t2 \<le> t3" "t3 \<le> t4" "t4 < t1 + 1800000"
  shows "map snd (fst (keepAlive [failing_round t1, failing_round t2, failing_round t3,
                                   failing_round t4] fresh_session))
         = [Reinstall [UnregisterAll, DeleteAllCaches, RegisterWorker],
            Reinstall [UnregisterAll, DeleteAllCaches, RegisterWorker],
            Reinstall [UnregisterAll, DeleteAllCaches, RegisterWorker],
            TooManyReinstalls]"
  using assms by (simp add: supervisor_eval)

lemma reset_after_window:
  assumes "writable st" and "lastReinstall (getServiceWorkerMetadata st) = Some l"
    and "l < now_at t - 1800000"
    and "fst (pingServiceWorker t st) = False" and "\<not> checkServiceWorkerHealth t"
  shows "fst (keepAliveRound t st) = Reinstall (reinstallServiceWorker (fault t))
       \<and> reinstallCount (getServiceWorkerMetadata (snd (keepAliveRound t st))) = 1
       \<and> lastReinstall (getServiceWorkerMetadata (snd (keepAliveRound t st))) = Some (now_at t)"
proof -
  obtain r st1 where k: "keepAliveRound t st = (r, st1)" by (cases "keepAliveRound t st") auto
  obtain sa sb where sa: "writable sa"
      "reinstallCount (getServiceWorkerMetadata sa) = reinstallCount (getServiceWorkerMetadata st)"
      "lastReinstall (getServiceWorkerMetadata sa) = lastReinstall (getServiceWorkerMetadata st)"
    and rs: "(r, sb) = (if fst (pingServiceWorker t st) \<or> checkServiceWorkerHealth t
                        then (Alive, sa) else repair t sa)"
    and s1: "st1 = sb \<or> st1 = record_ping_timeout t sb"
    using round_shape [OF k assms(1)] by blast
  have may: "may_reinstall (getServiceWorkerMetadata sa) (now_at t)"
    using sa assms(2,3) by (simp add: may_reinstall_def thirty_minutes_def)
  have nc: "next_count (getServiceWorkerMetadata sa) (now_at t) = 1"
    using sa assms(2,3) by (simp add: next_count_def thirty_minutes_def)
  have rp: "repair t sa = (r, sb)" using rs assms(4,5) by simp
  then have r: "r = Reinstall (reinstallServiceWorker (fault t))"
    and b: "writable sb" "reinstallCount (getServiceWorkerMetadata sb) = 1"
      "lastReinstall (getServiceWorkerMetadata sb) = Some (now_at t)"
    using may nc sa(1) by (auto simp: repair_result get_save writable_save)
  have "reinstallCount (getServiceWorkerMetadata st1) = 1
      \<and> lastReinstall (getServiceWorkerMetadata st1) = Some (now_at t)"
    using s1 b record_ping_timeout_keeps [OF b(1), of t] by auto
  then show ?thesis using k r by simp
qed

subsection \<open>The throttle, when the metadata can be stored\<close>

text \<open>
  The rounds of a session that starts with empty session storage that accepts every
  \<open>setItem\<close>, their clock readings positive and never going back.
  \<^item> Any window of thirty minutes (1800000 ms, from \<open>t\<close> up to but not including
    \<open>t + 1800000\<close>) holds at most three rounds that called
    \<open>reinstallServiceWorker\<close>.
  \<^item> Four rounds within one such window in which the ping and the health check fail:
    each of the first three reinstalls (unregister, delete the caches, register), the
    fourth only records the error.
  \<^item> In any state, a failing round more than thirty minutes after the last reinstall
    reinstalls and sets the counter back to 1.
\<close>

lemma reinstall_throttle:
  assumes "sorted (map now_at ticks)" and "\<forall>t\<in>set ticks. 0 < now_at t"
  shows "(\<forall>t. length (filter (\<lambda>x. t \<le> x \<and> x < t + 1800000)
                     (reinstall_times (fst (keepAlive ticks fresh_session)))) \<le> 3)
       \<and> (\<forall>t1 t2 t3 t4. 0 < t1 \<and> t1 \<le> t2 \<and> t2 \<le> t3 \<and> t3 \<le> t4 \<and> t4 < t1 + 1800000 \<longrightarrow>
            map snd (fst (keepAlive [failing_round t1, failing_round t2, failing_round t3,
                                      failing_round t4] fresh_session))
            = [Reinstall [UnregisterAll, DeleteAllCaches, RegisterWorker],
               Reinstall [UnregisterAll, DeleteAllCaches, RegisterWorker],
               Reinstall [UnregisterAll, DeleteAllCaches, RegisterWorker],
               TooManyReinstalls])
       \<and> (\<forall>st t l. writable st \<and> lastReinstall (getServiceWorkerMetadata st) = Some l
                    \<and> l < now_at t - 1800000
                    \<and> fst (pingServiceWorker t st) = False \<and> \<not> checkServiceWorkerHealth t \<longrightarrow>
            fst (keepAliveRound t st) = Reinstall (reinstallServiceWorker (fault t))
          \<and> reinstallCount (getServiceWorkerMetadata (snd (keepAliveRound t st))) = 1
          \<and> lastReinstall (getServiceWorkerMetadata (snd (keepAliveRound t st))) = Some (now_at t))"
proof -
  obtain rs st' where k: "keepAlive ticks fresh_session = (rs, st')"
    by (cases "keepAlive ticks fresh_session") auto
  have "throttle_inv (getServiceWorkerMetadata st') (rev (reinstall_times rs) @ [])"
    using keepAlive_inv [OF k _ fresh_inv assms] by (simp add: fresh_session_def)
  then have s: "sorted (rev (rev (reinstall_times rs)))" "spaced (rev (reinstall_times rs))"
    by (simp_all add: throttle_inv_def)
  have w: "length (filter (\<lambda>x. t \<le> x \<and> x < t + 1800000) (reinstall_times rs)) \<le> 3" for t
  proof -
    have "length (filter (\<lambda>x. t \<le> x \<and> x < t + thirty_minutes) (rev (reinstall_times rs))) \<le> 3"
      using window_bound [OF s] .
    then show ?thesis by (simp add: thirty_minutes_def flip: rev_filter)
  qed
  show ?thesis using w k four_failures reset_after_window by (intro conjI allI impI) auto
qed

lemma reinstall_throttle_example:
  "sorted (map now_at example_ticks) \<and> list_all (\<lambda>t. 0 < now_at t) example_ticks
   \<and> fst (keepAlive example_ticks fresh_session)
       = [(1000, Reinstall [UnregisterAll, DeleteAllCaches, RegisterWorker]),
          (31000, Reinstall [UnregisterAll, DeleteAllCaches, RegisterWorker]),
          (61000, Reinstall [UnregisterAll, DeleteAllCaches, RegisterWorker]),
          (91000, TooManyReinstalls),
          (2000000, Reinstall [UnregisterAll, DeleteAllCaches, RegisterWorker])]
   \<and> length (filter (\<lambda>x. 1000 \<le> x \<and> x < 1000 + 1800000)
               (reinstall_times (fst (keepAlive example_ticks fresh_session)))) \<le> 3"
proof -
  have s: "sorted (map now_at example_ticks)"
    by (simp add: example_ticks_def failing_round_def)
  have p: "\<forall>t\<in>set example_ticks. 0 < now_at t"
    by (simp add: example_ticks_def failing_round_def)
  have r: "fst (keepAlive example_ticks fresh_session)
       = [(1000, Reinstall [UnregisterAll, DeleteAllCaches, RegisterWorker]),
          (31000, Reinstall [UnregisterAll, DeleteAllCaches, RegisterWorker]),
          (61000, Reinstall [UnregisterAll, DeleteAllCaches, RegisterWorker]),
          (91000, TooManyReinstalls),
          (2000000, Reinstall [UnregisterAll, DeleteAllCaches, RegisterWorker])]"
    by (simp add: example_ticks_def supervisor_eval)
  have "\<forall>t. length (filter (\<lambda>x. t \<le> x \<and> x < t + 1800000)
                     (reinstall_times (fst (keepAlive example_ticks fresh_session)))) \<le> 3"
    using reinstall_throttle [OF s p] by blast
  then have "length (filter (\<lambda>x. 1000 \<le> x \<and> x < 1000 + 1800000)
               (reinstall_times (fst (keepAlive example_ticks fresh_session)))) \<le> 3"
    by blast
  then show ?thesis using s r by (simp add: example_ticks_def failing_round_def)
qed

subsection \<open>The throttle, when the metadata cannot be stored\<close>

text \<open>
  C8. The limit of three reinstalls in thirty minutes rests on the counter and the time
  of the last reinstall being stored. \<open>saveServiceWorkerMetadata\<close> (lines 51-57)
  catches a \<open>setItem\<close> that throws and goes on; then nothing is stored, every round
  reads the default metadata (counter 0, no last reinstall), and every failing round
  reinstalls. Four failing rounds one second apart give four reinstalls within four
  seconds: no fourth attempt is suppressed.
\<close>

theorem keepAlive_unwritable_storage_never_throttles:
  "fst (keepAlive [failing_round 1000, failing_round 2000, failing_round 3000,
                   failing_round 4000] unwritable_session)
     = [(1000, Reinstall [UnregisterAll, DeleteAllCaches, RegisterWorker]),
        (2000, Reinstall [UnregisterAll, DeleteAllCaches, RegisterWorker]),
        (3000, Reinstall [UnregisterAll, DeleteAllCaches, RegisterWorker]),
        (4000, Reinstall [UnregisterAll, DeleteAllCaches, RegisterWorker])]
   \<and> length (filter (\<lambda>x. 1000 \<le> x \<and> x < 1000 + 1800000)
               (reinstall_times
                  (fst (keepAlive [failing_round 1000, failing_round 2000, failing_round 3000,
                                   failing_round 4000] unwritable_session)))) = 4"
  by (simp add: supervisor_eval unwritable_session_def reinstall_times_def)

section \<open>The data hook\<close>

lemmas hook_eval = useData_states_def fetchData_def initial_state_def Let_def

text \<open>
  C9, as amended. When \<open>getCachedData\<close> has a truthy value \<open>c\<close> for the key:
  \<^item> the first render returns no data and \<open>loading = true\<close> (the initial state);
  \<^item> after the four setter calls the effect makes before it awaits the fetcher, the
    hook returns \<open>c\<close> with \<open>loading = false\<close>, and no later state is a loading
    state or carries an error;
  \<^item> when the fetcher resolves to \<open>v\<close> the hook ends with \<open>v\<close> as its data, and
    the memory cache holds \<open>v\<close> under the key;
  \<^item> when the fetcher rejects, the hook ends with \<open>c\<close> as its data and no error, and
    the memory cache is as before.
\<close>

theorem useData_cache_hit:
  assumes "getCachedData cacheKey = Some c" and "is_truthy c"
  shows "useData_states is_truthy getCachedData cacheKey fetched isoString memo ! 0
           = \<lparr> data = None, loading = True, error = None \<rparr>
       \<and> useData_states is_truthy getCachedData cacheKey fetched isoString memo ! 4
           = \<lparr> data = Some c, loading = False, error = None \<rparr>
       \<and> (\<forall>s \<in> set (drop 4 (useData_states is_truthy getCachedData cacheKey fetched isoString memo)).
            \<not> loading s \<and> error s = None)
       \<and> (\<forall>v. fetched = Fulfilled v \<longrightarrow>
            last (useData_states is_truthy getCachedData cacheKey fetched isoString memo)
              = \<lparr> data = Some v, loading = False, error = None \<rparr>
          \<and> snd (fetchData is_truthy getCachedData cacheKey fetched isoString (initial_state, memo))
              = memo(cacheKey \<mapsto> (v, isoString)))
       \<and> (\<forall>e. fetched = Rejected e \<longrightarrow>
            last (useData_states is_truthy getCachedData cacheKey fetched isoString memo)
              = \<lparr> data = Some c, loading = False, error = None \<rparr>
          \<and> snd (fetchData is_truthy getCachedData cacheKey fetched isoString (initial_state, memo))
              = memo)"
  using assms by (cases fetched) (simp_all add: hook_eval)

theorem useData_cache_hit_witness:
  "useData_states (\<lambda>v. v \<noteq> []) (\<lambda>k. Some ''cached'') ''tasks'' (Fulfilled ''fresh'') ''t'' Map.empty
     = [\<lparr> data = None, loading = True, error = None \<rparr>,
        \<lparr> data = None, loading = True, error = None \<rparr>,
        \<lparr> data = None, loading = True, error = None \<rparr>,
        \<lparr> data = Some ''cached'', loading = True, error = None \<rparr>,
        \<lparr> data = Some ''cached'', loading = False, error = None \<rparr>,
        \<lparr> data = Some ''fresh'', loading = False, error = None \<rparr>,
        \<lparr> data = Some ''fresh'', loading = False, error = None \<rparr>]
   \<and> last (useData_states (\<lambda>v. v \<noteq> []) (\<lambda>k. Some ''cached'') ''tasks''
             (Rejected (JsError True ''Failed to fetch'')) ''t'' Map.empty)
       = \<lparr> data = Some ''cached'', loading = False, error = None \<rparr>"
proof -
  have a: "(\<lambda>k::string. Some ''cached'') ''tasks'' = Some ''cached''" by simp
  have b: "(\<lambda>v::string. v \<noteq> []) ''cached''" by simp
  show ?thesis
    using useData_cache_hit [of "\<lambda>k. Some ''cached''" "''tasks''" "''cached''" "\<lambda>v. v \<noteq> []"
             "Rejected (JsError True ''Failed to fetch'')" "''t''" Map.empty, OF a b]
    by (simp add: hook_eval)
qed

text \<open>
  The claim as it stands fails at the first render: with a cached value for the key, the
  hook's first return is still the initial state, no data and \<open>loading = true\<close>.
\<close>

theorem useData_first_render_is_loading:
  "(\<lambda>k::string. Some ''cached'') ''tasks'' = Some ''cached''
   \<and> hd (useData_states (\<lambda>v. v \<noteq> []) (\<lambda>k. Some ''cached'') ''tasks'' (Fulfilled ''fresh'') ''t'' Map.empty)
       = \<lparr> data = None, loading = True, error = None \<rparr>"
  by (simp add: hook_eval)

end
